theory Spec2Isabelle
  imports Main "HOL-Library.Sublist"
begin

section \<open>Values, exceptions, tables\<close>

text \<open>
  A pandas cell holds a string, a number, a boolean or the missing value (NaN/None).
  \<open>pd.isnull\<close> is true exactly of the missing value.
\<close>

datatype val = Null | Str string | Num int | Flag bool

definition isnull :: "val \<Rightarrow> bool" where
  "isnull v = (v = Null)"

text \<open>
  Python exceptions. \<open>OSError\<close> stands for the class and its subclasses
  (\<open>FileNotFoundError\<close> among them), \<open>KeyError\<close> carries the key that was
  looked up, \<open>Other\<close> any other exception class, by name.
\<close>

datatype exc = OSError | KeyError val | Other string

fun bind_exc :: "exc + 'a \<Rightarrow> ('a \<Rightarrow> exc + 'b) \<Rightarrow> exc + 'b" where
  "bind_exc (Inl e) f = Inl e"
| "bind_exc (Inr x) f = f x"

text \<open>
  A data frame has its column names and its rows, each row under its index label.
  A row stores a value under every column name of the frame; reading a name that is
  not a column raises \<open>KeyError\<close>, for a row (\<open>row[c]\<close>) as for the frame
  (\<open>df[c]\<close>).
\<close>

type_synonym row = "string \<Rightarrow> val"

record dataframe =
  columns :: "string list"
  recs :: "(nat \<times> row) list"

definition getitem :: "string list \<Rightarrow> row \<Rightarrow> string \<Rightarrow> exc + val" where
  "getitem cols r c = (if c \<in> set cols then Inr (r c) else Inl (KeyError (Str c)))"

text \<open>\<open>str(idx)\<close> of a non-negative index label: its decimal digits.\<close>

fun str_of_nat :: "nat \<Rightarrow> string" where
  "str_of_nat n =
     (if n < 10 then [char_of (48 + n)]
      else str_of_nat (n div 10) @ [char_of (48 + n mod 10)])"

declare str_of_nat.simps [simp del]

section \<open>Chains and cells\<close>

text \<open>
  A chain is a Python dict from field names to values.

  Modelled from the spec: \<open>AirrCell\<close> (\<open>scirpy.io._datastructures\<close>) is not among the
  sources. By the specification's data model a chain dict always contains the full
  fixed field set \<open>locus\<close>, \<open>junction_aa\<close>, \<open>junction\<close>, \<open>v_call\<close>, \<open>d_call\<close>,
  \<open>j_call\<close>, \<open>consensus_count\<close>, \<open>productive\<close> with missing values as explicit nulls;
  a cell has an identifier, an ordered collection of chains to which chains are added
  in the order given, without reordering, and a mapping of scalar metadata fields onto
  which a value is copied verbatim.
\<close>

type_synonym chain = "string \<rightharpoonup> val"

definition empty_chain_dict :: chain where
  "empty_chain_dict =
     [''locus'' \<mapsto> Null, ''junction_aa'' \<mapsto> Null, ''junction'' \<mapsto> Null,
      ''v_call'' \<mapsto> Null, ''d_call'' \<mapsto> Null, ''j_call'' \<mapsto> Null,
      ''consensus_count'' \<mapsto> Null, ''productive'' \<mapsto> Null]"

record airr_cell =
  cell_id :: val
  chains :: "chain list"
  attrs :: "string \<rightharpoonup> val"

definition AirrCell :: "val \<Rightarrow> airr_cell" where
  "AirrCell cid = \<lparr>cell_id = cid, chains = [], attrs = Map.empty\<rparr>"

definition add_chain :: "airr_cell \<Rightarrow> chain \<Rightarrow> airr_cell" where
  "add_chain cell ch = cell\<lparr>chains := chains cell @ [ch]\<rparr>"

definition setitem :: "airr_cell \<Rightarrow> string \<Rightarrow> val \<Rightarrow> airr_cell" where
  "setitem cell k v = cell\<lparr>attrs := (attrs cell)(k \<mapsto> v)\<rparr>"

section \<open>VDJDB: one row to one cell\<close>

definition INCLUDE_CELL_METADATA_FIELDS :: "string list" where
  "INCLUDE_CELL_METADATA_FIELDS =
     [''species'', ''mhc.a'', ''mhc.b'', ''mhc.class'', ''antigen.epitope'',
      ''antigen.gene'', ''antigen.species'', ''reference.id'',
      ''method.identification'', ''method.frequency'', ''method.singlecell'',
      ''method.sequencing'', ''method.verification'', ''meta.study.id'',
      ''meta.cell.subset'', ''meta.subject.cohort'', ''meta.subject.id'',
      ''meta.replica.id'', ''meta.clone.id'', ''meta.epitope.id'', ''meta.tissue'',
      ''meta.donor.MHC'', ''meta.donor.MHC.method'', ''meta.structure.id'',
      ''vdjdb.score'']"

text \<open>The loop \<open>for f in INCLUDE_CELL_METADATA_FIELDS: cell[f] = row[f]\<close>.\<close>

fun copy_fields :: "string list \<Rightarrow> string list \<Rightarrow> row \<Rightarrow> airr_cell \<Rightarrow> exc + airr_cell" where
  "copy_fields [] cols r cell = Inr cell"
| "copy_fields (f # fs) cols r cell =
     bind_exc (getitem cols r f) (\<lambda>v. copy_fields fs cols r (setitem cell f v))"

text \<open>
  The body of the loop over \<open>df.iterrows()\<close> in \<open>vdjdb\<close>: \<open>idx\<close> is the row's index
  label, \<open>cols\<close> the frame's columns, \<open>r\<close> the row. The dict literal passed to
  \<open>update\<close> reads its columns in the order written.
\<close>

definition vdjdb_row :: "string list \<Rightarrow> nat \<Rightarrow> row \<Rightarrow> exc + airr_cell" where
  "vdjdb_row cols idx r =
     (let cell = AirrCell (Str (str_of_nat idx)) in
      bind_exc (getitem cols r ''cdr3.alpha'') (\<lambda>a.
      bind_exc
        (if \<not> isnull a then
           bind_exc (getitem cols r ''cdr3.alpha'') (\<lambda>junction_aa.
           bind_exc (getitem cols r ''v.alpha'') (\<lambda>v_call.
           bind_exc (getitem cols r ''j.alpha'') (\<lambda>j_call.
           Inr (add_chain cell
             (empty_chain_dict(''locus'' \<mapsto> Str ''TRA'', ''junction_aa'' \<mapsto> junction_aa,
                ''v_call'' \<mapsto> v_call, ''j_call'' \<mapsto> j_call,
                ''consensus_count'' \<mapsto> Num 0, ''productive'' \<mapsto> Flag True))))))
         else Inr cell) (\<lambda>cell.
      bind_exc (getitem cols r ''cdr3.beta'') (\<lambda>b.
      bind_exc
        (if \<not> isnull b then
           bind_exc (getitem cols r ''cdr3.beta'') (\<lambda>junction_aa.
           bind_exc (getitem cols r ''v.beta'') (\<lambda>v_call.
           bind_exc (getitem cols r ''d.beta'') (\<lambda>d_call.
           bind_exc (getitem cols r ''j.beta'') (\<lambda>j_call.
           Inr (add_chain cell
             (empty_chain_dict(''locus'' \<mapsto> Str ''TRB'', ''junction_aa'' \<mapsto> junction_aa,
                ''v_call'' \<mapsto> v_call, ''d_call'' \<mapsto> d_call, ''j_call'' \<mapsto> j_call,
                ''consensus_count'' \<mapsto> Num 0, ''productive'' \<mapsto> Flag True)))))))
         else Inr cell) (\<lambda>cell.
      copy_fields INCLUDE_CELL_METADATA_FIELDS cols r cell)))))"

text \<open>The columns that \<open>vdjdb\<close> reads from a row.\<close>

definition vdjdb_columns :: "string list" where
  "vdjdb_columns =
     [''cdr3.alpha'', ''v.alpha'', ''j.alpha'', ''cdr3.beta'', ''v.beta'', ''d.beta'',
      ''j.beta''] @ INCLUDE_CELL_METADATA_FIELDS"


section \<open>The pandas operations \<open>iedb\<close> uses\<close>

text \<open>
  \<open>pd.read_csv\<close> with \<open>index_col=None\<close> labels the rows of the file \<open>0, 1, 2, ...\<close>.
\<close>

definition read_csv :: "string list \<Rightarrow> row list \<Rightarrow> dataframe" where
  "read_csv cols rows = \<lparr>columns = cols, recs = zip [0..<length rows] rows\<rparr>"

text \<open>\<open>df[c]\<close>: the column as a series, every value under the label of its row.\<close>

definition get_column :: "dataframe \<Rightarrow> string \<Rightarrow> exc + (nat \<times> val) list" where
  "get_column df c =
     (if c \<in> set (columns df) then Inr (map (\<lambda>(l, r). (l, r c)) (recs df))
      else Inl (KeyError (Str c)))"

text \<open>
  \<open>drop_duplicates\<close> keeps, of the rows that agree on the columns of its subset, the
  first one; missing values count as equal to each other. The rows it keeps keep their
  labels. Without a subset all columns are compared; a subset naming a column the frame
  lacks raises \<open>KeyError\<close> (reported here with the first such name).
\<close>

fun keep_first :: "string list \<Rightarrow> val list list \<Rightarrow> (nat \<times> row) list \<Rightarrow> (nat \<times> row) list" where
  "keep_first cs seen [] = []"
| "keep_first cs seen ((l, r) # rs) =
     (if map r cs \<in> set seen then keep_first cs seen rs
      else (l, r) # keep_first cs (map r cs # seen) rs)"

definition drop_duplicates :: "string list option \<Rightarrow> dataframe \<Rightarrow> exc + dataframe" where
  "drop_duplicates sub df =
     (case sub of
        None \<Rightarrow> Inr (df\<lparr>recs := keep_first (columns df) [] (recs df)\<rparr>)
      | Some cs \<Rightarrow>
          (case filter (\<lambda>c. c \<notin> set (columns df)) cs of
             [] \<Rightarrow> Inr (df\<lparr>recs := keep_first cs [] (recs df)\<rparr>)
           | c # _ \<Rightarrow> Inl (KeyError (Str c))))"

text \<open>
  \<open>series.isna()\<close> and \<open>series.isin(values)\<close> work element by element.
\<close>

definition isna :: "(nat \<times> val) list \<Rightarrow> (nat \<times> bool) list" where
  "isna ser = map (\<lambda>(l, v). (l, isnull v)) ser"

text \<open>
  \<open>series.str\<close> raises \<open>AttributeError\<close> unless the series holds text. A column that
  \<open>read_csv\<close> has read and that is not empty holds text when one of its values is a
  string; a column of missing values, numbers or booleans only has a numeric or boolean
  dtype, which the accessor refuses. An empty column has the dtype of text. On a series
  that holds text \<open>str.upper()\<close> upper-cases the strings and turns every other value
  into the missing value.

  \<open>upper_char\<close> is Python's \<open>str.upper\<close> on ASCII characters, where it maps the
  letters a to z to A to Z and keeps the rest. It is left as it is on other characters,
  where Python follows Unicode: what follows relies on it for ASCII text only
  (\<open>ascii_val\<close>).
\<close>

definition is_str :: "val \<Rightarrow> bool" where
  "is_str v = (case v of Str s \<Rightarrow> True | _ \<Rightarrow> False)"

definition has_text :: "val list \<Rightarrow> bool" where
  "has_text vs = (vs = [] \<or> list_ex is_str vs)"


definition upper_char :: "char \<Rightarrow> char" where
  "upper_char c =
     (if 97 \<le> (of_char c :: nat) \<and> (of_char c :: nat) \<le> 122
      then char_of ((of_char c :: nat) - 32) else c)"

definition upper :: "val \<Rightarrow> val" where
  "upper v = (case v of Str s \<Rightarrow> Str (map upper_char s) | _ \<Rightarrow> Null)"

definition str_upper :: "(nat \<times> val) list \<Rightarrow> exc + (nat \<times> val) list" where
  "str_upper ser =
     (if has_text (map snd ser) then Inr (map (\<lambda>(l, v). (l, upper v)) ser)
      else Inl (Other ''AttributeError''))"

definition isin_val :: "val \<Rightarrow> string list \<Rightarrow> bool" where
  "isin_val v xs = (case v of Str s \<Rightarrow> s \<in> set xs | _ \<Rightarrow> False)"

definition isin :: "(nat \<times> val) list \<Rightarrow> string list \<Rightarrow> (nat \<times> bool) list" where
  "isin ser xs = map (\<lambda>(l, v). (l, isin_val v xs)) ser"

text \<open>
  Assignments of a series align it with the frame by label: the row labelled \<open>l\<close>
  receives the value the series has under \<open>l\<close>, or the missing value when the series has
  none. \<open>df.loc[mask, c] = ser\<close> assigns in the rows where the mask holds, \<open>df[c] = ser\<close>
  in all rows, adding the column when the frame lacks it. \<open>m1 & m2\<close> and \<open>df[mask]\<close>
  align in the same way.
\<close>

definition aligned :: "(nat \<times> val) list \<Rightarrow> nat \<Rightarrow> val" where
  "aligned ser l = (case map_of ser l of Some v \<Rightarrow> v | None \<Rightarrow> Null)"

definition loc_setitem :: "(nat \<times> bool) list \<Rightarrow> string \<Rightarrow> (nat \<times> val) list \<Rightarrow> dataframe \<Rightarrow> dataframe" where
  "loc_setitem msk c ser df =
     df\<lparr>recs := map (\<lambda>(l, r). if map_of msk l = Some True then (l, r(c := aligned ser l))
                               else (l, r)) (recs df)\<rparr>"

definition add_column :: "string \<Rightarrow> string list \<Rightarrow> string list" where
  "add_column c cols = (if c \<in> set cols then cols else cols @ [c])"

definition setitem_series :: "string \<Rightarrow> (nat \<times> val) list \<Rightarrow> dataframe \<Rightarrow> dataframe" where
  "setitem_series c ser df =
     df\<lparr>columns := add_column c (columns df),
        recs := map (\<lambda>(l, r). (l, r(c := aligned ser l))) (recs df)\<rparr>"

definition mask_and :: "(nat \<times> bool) list \<Rightarrow> (nat \<times> bool) list \<Rightarrow> (nat \<times> bool) list" where
  "mask_and m1 m2 = map (\<lambda>(l, b). (l, b \<and> map_of m2 l = Some True)) m1"

definition getitem_mask :: "(nat \<times> bool) list \<Rightarrow> dataframe \<Rightarrow> dataframe" where
  "getitem_mask msk df = df\<lparr>recs := filter (\<lambda>(l, r). map_of msk l = Some True) (recs df)\<rparr>"

text \<open>
  \<open>df[c] = index\<close> with an index object (not a series) assigns by position and raises
  \<open>ValueError\<close> when the lengths differ.
\<close>

definition setitem_values :: "string \<Rightarrow> val list \<Rightarrow> dataframe \<Rightarrow> exc + dataframe" where
  "setitem_values c vals df =
     (if length vals \<noteq> length (recs df) then Inl (Other ''ValueError'')
      else Inr (df\<lparr>columns := add_column c (columns df),
                  recs := map (\<lambda>((l, r), v). (l, r(c := v))) (zip (recs df) vals)\<rparr>))"

text \<open>\<open>s.replace(old, new)\<close> of Python strings: every occurrence, left to right.\<close>

function python_replace :: "string \<Rightarrow> string \<Rightarrow> string \<Rightarrow> string" where
  "python_replace old new s =
     (if old = [] then new @ concat (map (\<lambda>c. c # new) s)
      else if s = [] then []
      else if prefix old s then new @ python_replace old new (drop (length old) s)
      else hd s # python_replace old new (tl s))"
  by pat_completeness auto
termination
  by (relation "measure (\<lambda>(old, new, s). length s)") auto

declare python_replace.simps [simp del]

section \<open>IEDB: preprocessing of the table\<close>

text \<open>Lines 289 to 300: exact duplicates, then duplicates on the key columns.\<close>

definition iedb_key :: "string list" where
  "iedb_key =
     [''Chain 1 CDR3 Curated'', ''Chain 2 CDR3 Curated'', ''Organism'', ''Antigen'',
      ''Response Type'', ''Chain 1 Type'', ''Chain 2 Type'']"

definition iedb_dedup :: "dataframe \<Rightarrow> exc + dataframe" where
  "iedb_dedup df = bind_exc (drop_duplicates None df) (drop_duplicates (Some iedb_key))"

text \<open>
  \<open>replace_curated\<close> works on the frame \<open>iedb_df\<close> of the enclosing function, which
  the model passes in and returns. Each half of its body is \<open>backfill_upper\<close>; the
  right-hand side of the \<open>loc\<close> assignment is evaluated before its mask, and
  \<open>.str.upper()\<close> raises \<open>AttributeError\<close> when the back-filled column holds no text.
\<close>

definition backfill_upper :: "string \<Rightarrow> dataframe \<Rightarrow> exc + dataframe" where
  "backfill_upper inp df =
     (let calculated = python_replace ''Curated'' ''Calculated'' inp in
      bind_exc (get_column df calculated) (\<lambda>cal.
      bind_exc (get_column df inp) (\<lambda>cur.
      let df1 = loc_setitem (isna cur) inp cal df in
      bind_exc (get_column df1 inp) (\<lambda>cur1.
      bind_exc (str_upper cur1) (\<lambda>upper_1.
      Inr (setitem_series inp upper_1 df1))))))"

definition replace_curated :: "string \<Rightarrow> string \<Rightarrow> dataframe \<Rightarrow> exc + dataframe" where
  "replace_curated input_1 input_2 df =
     bind_exc (backfill_upper input_1 df) (backfill_upper input_2)"

text \<open>Lines 311 to 314.\<close>

definition iedb_backfill :: "dataframe \<Rightarrow> exc + dataframe" where
  "iedb_backfill df =
     bind_exc (replace_curated ''Chain 1 CDR3 Curated'' ''Chain 2 CDR3 Curated'' df) (\<lambda>df.
     bind_exc (replace_curated ''Curated Chain 1 V Gene'' ''Curated Chain 2 V Gene'' df) (\<lambda>df.
     bind_exc (replace_curated ''Curated Chain 1 D Gene'' ''Curated Chain 2 D Gene'' df) (\<lambda>df.
     replace_curated ''Curated Chain 1 J Gene'' ''Curated Chain 2 J Gene'' df)))"

text \<open>Line 316: \<open>iedb_df["cell_id"] = iedb_df.reset_index(drop=True).index\<close>.\<close>

definition iedb_cell_ids :: "dataframe \<Rightarrow> exc + dataframe" where
  "iedb_cell_ids df =
     setitem_values ''cell_id'' (map (\<lambda>i. Num (int i)) [0..<length (recs df)]) df"

text \<open>Lines 318 to 322.\<close>

definition accepted_chains :: "string list" where
  "accepted_chains = [''alpha'', ''beta'', ''heavy'', ''light'', ''gamma'', ''delta'']"

definition iedb_accepted :: "dataframe \<Rightarrow> exc + dataframe" where
  "iedb_accepted df =
     bind_exc (get_column df ''Chain 1 Type'') (\<lambda>t1.
     bind_exc (get_column df ''Chain 2 Type'') (\<lambda>t2.
     Inr (getitem_mask (mask_and (isin t1 accepted_chains) (isin t2 accepted_chains)) df)))"

definition iedb_preprocess :: "dataframe \<Rightarrow> exc + dataframe" where
  "iedb_preprocess df =
     bind_exc (iedb_dedup df) (\<lambda>df.
     bind_exc (iedb_backfill df) (\<lambda>df.
     bind_exc (iedb_cell_ids df) iedb_accepted))"

section \<open>IEDB: one row to one cell\<close>

definition receptor_dict :: "(string \<times> val) list" where
  "receptor_dict =
     [(''alpha'', Str ''TRA''), (''beta'', Str ''TRB''), (''heavy'', Str ''IGH''),
      (''light'', Null), (''gamma'', Str ''TRG''), (''delta'', Str ''TRD'')]"

text \<open>\<open>receptor_dict[k]\<close>: a key that is not in the dict raises \<open>KeyError\<close>.\<close>

definition receptor_dict_getitem :: "val \<Rightarrow> exc + val" where
  "receptor_dict_getitem k =
     (case k of
        Str s \<Rightarrow> (case map_of receptor_dict s of Some v \<Rightarrow> Inr v | None \<Rightarrow> Inl (KeyError k))
      | _ \<Rightarrow> Inl (KeyError k))"

text \<open>
  Modelled from the spec: \<open>_infer_locus_from_gene_names\<close> (\<open>scirpy.io._io\<close>) is not
  among the sources. By the specification it inspects the given keys of the chain in
  order; when a gene name begins with a recognized locus code it returns that locus;
  when no key yields a match the locus stays unresolved. It is a pure function.
  The locus codes are those of the specification's glossary.
\<close>

definition locus_codes :: "string list" where
  "locus_codes = [''TRA'', ''TRB'', ''IGH'', ''IGK'', ''IGL'', ''TRG'', ''TRD'']"

fun infer_locus_from_gene_names :: "chain \<Rightarrow> string list \<Rightarrow> val" where
  "infer_locus_from_gene_names ch [] = Null"
| "infer_locus_from_gene_names ch (k # ks) =
     (case ch k of
        Some (Str g) \<Rightarrow>
          (case find (\<lambda>c. prefix c g) locus_codes of
             Some c \<Rightarrow> Str c
           | None \<Rightarrow> infer_locus_from_gene_names ch ks)
      | _ \<Rightarrow> infer_locus_from_gene_names ch ks)"

text \<open>
  The loop \<open>for chain_dict in [chain1, chain2]\<close> of lines 369 to 376: the locus of a
  chain whose locus is \<open>None\<close> is inferred, and the chain is added.
\<close>

definition call_locus :: "chain \<Rightarrow> chain" where
  "call_locus chain_dict =
     (if chain_dict ''locus'' = Some Null
      then chain_dict(''locus'' \<mapsto>
             infer_locus_from_gene_names chain_dict [''v_call'', ''d_call'', ''j_call''])
      else chain_dict)"

fun add_chains :: "chain list \<Rightarrow> airr_cell \<Rightarrow> airr_cell" where
  "add_chains [] cell = cell"
| "add_chains (chain_dict # rest) cell = add_chains rest (add_chain cell (call_locus chain_dict))"

text \<open>The six metadata fields that lines 339 to 344 copy, in that order.\<close>

definition iedb_cell_fields :: "string list" where
  "iedb_cell_fields =
     [''Receptor ID'', ''Antigen'', ''Organism'', ''Response Type'', ''Reference IRI'',
      ''Epitope IRI'']"

text \<open>The body of the loop over \<open>iedb_df.iterrows()\<close>, lines 336 to 378.\<close>

definition iedb_row :: "string list \<Rightarrow> row \<Rightarrow> exc + airr_cell" where
  "iedb_row cols r =
     bind_exc (getitem cols r ''cell_id'') (\<lambda>cid.
     bind_exc (copy_fields iedb_cell_fields cols r (AirrCell cid)) (\<lambda>cell.
     bind_exc (getitem cols r ''Chain 1 Type'') (\<lambda>type1.
     bind_exc (receptor_dict_getitem type1) (\<lambda>locus1.
     bind_exc (getitem cols r ''Chain 1 CDR3 Curated'') (\<lambda>junction_aa1.
     bind_exc (getitem cols r ''Curated Chain 1 V Gene'') (\<lambda>v_call1.
     bind_exc (getitem cols r ''Curated Chain 1 J Gene'') (\<lambda>j_call1.
     let chain1 = empty_chain_dict(''locus'' \<mapsto> locus1, ''junction_aa'' \<mapsto> junction_aa1,
                    ''junction'' \<mapsto> Null, ''consensus_count'' \<mapsto> Null,
                    ''v_call'' \<mapsto> v_call1, ''d_call'' \<mapsto> Null, ''j_call'' \<mapsto> j_call1,
                    ''productive'' \<mapsto> Flag True) in
     bind_exc (getitem cols r ''Chain 2 Type'') (\<lambda>type2.
     bind_exc (receptor_dict_getitem type2) (\<lambda>locus2.
     bind_exc (getitem cols r ''Chain 2 CDR3 Curated'') (\<lambda>junction_aa2.
     bind_exc (getitem cols r ''Curated Chain 2 V Gene'') (\<lambda>v_call2.
     bind_exc (getitem cols r ''Curated Chain 2 D Gene'') (\<lambda>d_call2.
     bind_exc (getitem cols r ''Curated Chain 2 J Gene'') (\<lambda>j_call2.
     let chain2 = empty_chain_dict(''locus'' \<mapsto> locus2, ''junction_aa'' \<mapsto> junction_aa2,
                    ''junction'' \<mapsto> Null, ''consensus_count'' \<mapsto> Null,
                    ''v_call'' \<mapsto> v_call2, ''d_call'' \<mapsto> d_call2, ''j_call'' \<mapsto> j_call2,
                    ''productive'' \<mapsto> Flag True) in
     Inr (add_chains [chain1, chain2] cell))))))))))))))"

fun iedb_rows :: "string list \<Rightarrow> (nat \<times> row) list \<Rightarrow> exc + airr_cell list" where
  "iedb_rows cols [] = Inr []"
| "iedb_rows cols ((l, r) # rs) =
     bind_exc (iedb_row cols r) (\<lambda>cell.
     bind_exc (iedb_rows cols rs) (\<lambda>tcr_cells. Inr (cell # tcr_cells)))"

text \<open>From the fetched table to the list \<open>tcr_cells\<close>: lines 289 to 378.\<close>

definition iedb_cells :: "dataframe \<Rightarrow> exc + airr_cell list" where
  "iedb_cells df = bind_exc (iedb_preprocess df) (\<lambda>df. iedb_rows (columns df) (recs df))"

text \<open>The columns that \<open>iedb\<close> reads.\<close>

definition curated_columns :: "string list" where
  "curated_columns =
     [''Chain 1 CDR3 Curated'', ''Chain 2 CDR3 Curated'',
      ''Curated Chain 1 V Gene'', ''Curated Chain 2 V Gene'',
      ''Curated Chain 1 D Gene'', ''Curated Chain 2 D Gene'',
      ''Curated Chain 1 J Gene'', ''Curated Chain 2 J Gene'']"

definition iedb_columns :: "string list" where
  "iedb_columns =
     iedb_key @ curated_columns @ map (python_replace ''Curated'' ''Calculated'') curated_columns
       @ iedb_cell_fields"

section \<open>VDJDB: all rows\<close>

fun vdjdb_rows :: "string list \<Rightarrow> (nat \<times> row) list \<Rightarrow> exc + airr_cell list" where
  "vdjdb_rows cols [] = Inr []"
| "vdjdb_rows cols ((idx, r) # rs) =
     bind_exc (vdjdb_row cols idx r) (\<lambda>cell.
     bind_exc (vdjdb_rows cols rs) (\<lambda>tcr_cells. Inr (cell # tcr_cells)))"

section \<open>Cache or fetch\<close>

text \<open>
  Modelled from the spec: \<open>from_airr_cells\<close> (\<open>scirpy.io._convert_anndata\<close>) and
  \<open>index_chains\<close> (\<open>scirpy.pp\<close>) are not among the sources. By the specification the
  container-assembly collaborator takes the list of normalized cells and produces the
  container, which holds the cells and one attached database-metadata record (name,
  download timestamp); the chain-indexing collaborator post-processes the container.
\<close>

record adata =
  obs :: "airr_cell list"
  uns_DB :: "(string \<times> string) option"
  chain_indices :: bool

definition from_airr_cells :: "airr_cell list \<Rightarrow> adata" where
  "from_airr_cells cells = \<lparr>obs = cells, uns_DB = None, chain_indices = False\<rparr>"

definition index_chains :: "adata \<Rightarrow> adata" where
  "index_chains a = a\<lparr>chain_indices := True\<rparr>"

text \<open>
  What a call finds outside the program: the outcome of reading the cache file at a
  path (\<open>sc.read_h5ad\<close>), the outcome of fetching and parsing the remote table, the
  clock, and the outcome of storing the cache (\<open>os.makedirs\<close>, \<open>write_h5ad\<close>). A call
  returns the collaborators it invoked, in order, with its result.
\<close>

record world =
  read_h5ad :: "string \<Rightarrow> exc + adata"
  fetch :: "exc + (string list \<times> row list)"
  now_isoformat :: string
  write_h5ad :: "string \<Rightarrow> adata \<Rightarrow> exc option"

datatype event = ReadCache string | Fetch | WriteCache string

definition after :: "event \<Rightarrow> event list \<times> 'a \<Rightarrow> event list \<times> 'a" where
  "after ev res = (ev # fst res, snd res)"

definition store_cache :: "world \<Rightarrow> string \<Rightarrow> adata \<Rightarrow> event list \<times> (exc + adata)" where
  "store_cache w cache_path a =
     (case write_h5ad w cache_path a of
        Some e \<Rightarrow> ([WriteCache cache_path], Inl e)
      | None \<Rightarrow> ([WriteCache cache_path], Inr a))"

text \<open>Lines 161 to 250 of \<open>vdjdb\<close>, past the cache.\<close>

definition vdjdb_download :: "world \<Rightarrow> string \<Rightarrow> event list \<times> (exc + adata)" where
  "vdjdb_download w cache_path =
     (case fetch w of
        Inl e \<Rightarrow> ([Fetch], Inl e)
      | Inr (cols, rows) \<Rightarrow>
          (case vdjdb_rows cols (recs (read_csv cols rows)) of
             Inl e \<Rightarrow> ([Fetch], Inl e)
           | Inr tcr_cells \<Rightarrow>
               after Fetch (store_cache w cache_path
                 ((index_chains (from_airr_cells tcr_cells))
                    \<lparr>uns_DB := Some (''VDJDB'', now_isoformat w)\<rparr>))))"

definition vdjdb :: "world \<Rightarrow> bool \<Rightarrow> string \<Rightarrow> event list \<times> (exc + adata)" where
  "vdjdb w cached cache_path =
     (if cached then
        (case read_h5ad w cache_path of
           Inr a \<Rightarrow> ([ReadCache cache_path], Inr a)
         | Inl e \<Rightarrow>
             if e = OSError
             then after (ReadCache cache_path) (vdjdb_download w cache_path)
             else ([ReadCache cache_path], Inl e))
      else vdjdb_download w cache_path)"

text \<open>
  Lines 279 to 391 of \<open>iedb\<close>, past the cache. Line 382 re-labels the local table with
  the cells' index, which has the table's length, and the table is not used again.
\<close>

definition iedb_download :: "world \<Rightarrow> string \<Rightarrow> event list \<times> (exc + adata)" where
  "iedb_download w cache_path =
     (case fetch w of
        Inl e \<Rightarrow> ([Fetch], Inl e)
      | Inr (cols, rows) \<Rightarrow>
          (case iedb_cells (read_csv cols rows) of
             Inl e \<Rightarrow> ([Fetch], Inl e)
           | Inr tcr_cells \<Rightarrow>
               after Fetch (store_cache w cache_path
                 (index_chains
                    ((from_airr_cells tcr_cells)
                       \<lparr>uns_DB := Some (''IEDB'', now_isoformat w)\<rparr>)))))"

definition iedb :: "world \<Rightarrow> bool \<Rightarrow> string \<Rightarrow> event list \<times> (exc + adata)" where
  "iedb w cached cache_path =
     (if cached then
        (case read_h5ad w cache_path of
           Inr a \<Rightarrow> ([ReadCache cache_path], Inr a)
         | Inl e \<Rightarrow>
             if e = OSError
             then after (ReadCache cache_path) (iedb_download w cache_path)
             else ([ReadCache cache_path], Inl e))
      else iedb_download w cache_path)"

section \<open>What the specification says of a row, and example inputs\<close>

text \<open>
  Preprocessing step 3 in the specification's words: a null curated value is back-filled
  from the corresponding calculated field, then the curated field is upper-cased; this
  for each of the curated columns, the other columns staying as they are.
\<close>

definition filled :: "row \<Rightarrow> string \<Rightarrow> val" where
  "filled r c = (if isnull (r c) then r (python_replace ''Curated'' ''Calculated'' c) else r c)"

definition backfilled :: "row \<Rightarrow> string \<Rightarrow> val" where
  "backfilled r c = upper (filled r c)"

definition backfill_row :: "row \<Rightarrow> row" where
  "backfill_row r = (\<lambda>c. if c \<in> set curated_columns then backfilled r c else r c)"

text \<open>The columns that the loop body of \<open>iedb\<close> reads from a row.\<close>

definition iedb_row_columns :: "string list" where
  "iedb_row_columns =
     ''cell_id'' # iedb_cell_fields @
     [''Chain 1 Type'', ''Chain 1 CDR3 Curated'', ''Curated Chain 1 V Gene'',
      ''Curated Chain 1 J Gene'', ''Chain 2 Type'', ''Chain 2 CDR3 Curated'',
      ''Curated Chain 2 V Gene'', ''Curated Chain 2 D Gene'', ''Curated Chain 2 J Gene'']"

text \<open>A row given by the values listed, missing everywhere else.\<close>

definition mk_row :: "(string \<times> val) list \<Rightarrow> row" where
  "mk_row kvs c = (case map_of kvs c of Some v \<Rightarrow> v | None \<Rightarrow> Null)"

text \<open>
  The VDJDB row of the specification's end-to-end scenario, in a table that also has a
  column outside the allow-list.
\<close>

definition vdjdb_example_cols :: "string list" where
  "vdjdb_example_cols = vdjdb_columns @ [''web.method'']"

definition vdjdb_example_row :: row where
  "vdjdb_example_row =
     mk_row [(''cdr3.alpha'', Str ''CAVRPTSGGSYIPTF''), (''v.alpha'', Str ''TRAV3''),
             (''j.alpha'', Str ''TRAJ6''), (''species'', Str ''HomoSapiens''),
             (''vdjdb.score'', Num 2), (''web.method'', Str ''sort'')]"

text \<open>
  An IEDB table of five rows, with a column that \<open>iedb\<close> does not read. Row 1 agrees
  with row 0 on the key columns and differs elsewhere; row 2 has no type for chain 1;
  rows 3 and 4 have a light chain, with and without a gene name to tell its locus.
  Every curated column holds text in some row, so that the \<open>str\<close> accessor of pandas
  accepts it.
\<close>

definition iedb_example_cols :: "string list" where
  "iedb_example_cols = iedb_columns @ [''Reference Name'']"

definition iedb_example_row0 :: row where
  "iedb_example_row0 =
     mk_row [(''Receptor ID'', Num 1), (''Chain 1 Type'', Str ''alpha''),
             (''Chain 2 Type'', Str ''beta''), (''Chain 1 CDR3 Curated'', Str ''CAVRPTSGGSYIPTF''),
             (''Chain 2 CDR3 Curated'', Str ''cassiRSSYEQYF''),
             (''Calculated Chain 1 V Gene'', Str ''trav3*01''),
             (''Curated Chain 1 J Gene'', Str ''TRAJ6''),
             (''Curated Chain 2 V Gene'', Str ''TRBV19''),
             (''Curated Chain 2 D Gene'', Str ''TRBD1''),
             (''Calculated Chain 2 J Gene'', Str ''trbj2-7''),
             (''Organism'', Str ''Influenza A virus''), (''Antigen'', Str ''M1''),
             (''Response Type'', Str ''T cell'')]"

definition iedb_example_row1 :: row where
  "iedb_example_row1 =
     mk_row [(''Receptor ID'', Num 2), (''Chain 1 Type'', Str ''alpha''),
             (''Chain 2 Type'', Str ''beta''), (''Chain 1 CDR3 Curated'', Str ''CAVRPTSGGSYIPTF''),
             (''Chain 2 CDR3 Curated'', Str ''cassiRSSYEQYF''),
             (''Curated Chain 1 V Gene'', Str ''TRAV3''),
             (''Organism'', Str ''Influenza A virus''), (''Antigen'', Str ''M1''),
             (''Response Type'', Str ''T cell'')]"

definition iedb_example_row2 :: row where
  "iedb_example_row2 =
     mk_row [(''Receptor ID'', Num 3), (''Chain 2 Type'', Str ''beta''),
             (''Chain 2 CDR3 Curated'', Str ''CASSLGQAYEQYF''),
             (''Organism'', Str ''Homo sapiens''), (''Response Type'', Str ''T cell'')]"

definition iedb_example_row3 :: row where
  "iedb_example_row3 =
     mk_row [(''Receptor ID'', Num 4), (''Chain 1 Type'', Str ''heavy''),
             (''Chain 2 Type'', Str ''light''), (''Chain 1 CDR3 Curated'', Str ''ARDYYGSSYFDY''),
             (''Chain 2 CDR3 Curated'', Str ''QQYNSYPLT''),
             (''Curated Chain 1 V Gene'', Str ''IGHV1-69''),
             (''Curated Chain 1 D Gene'', Str ''IGHD3-10''),
             (''Curated Chain 2 V Gene'', Str ''IGKV1-5''),
             (''Organism'', Str ''Homo sapiens''), (''Response Type'', Str ''B cell'')]"

definition iedb_example_row4 :: row where
  "iedb_example_row4 =
     mk_row [(''Receptor ID'', Num 5), (''Chain 1 Type'', Str ''heavy''),
             (''Chain 2 Type'', Str ''light''), (''Chain 1 CDR3 Curated'', Str ''ARGGYSSGWYFDV''),
             (''Chain 2 CDR3 Curated'', Str ''QSYDSSLSGV''),
             (''Calculated Chain 1 D Gene'', Str ''IGHD6-19''),
             (''Organism'', Str ''Homo sapiens''), (''Response Type'', Str ''B cell'')]"

definition iedb_example_rows :: "row list" where
  "iedb_example_rows =
     [iedb_example_row0, iedb_example_row1, iedb_example_row2, iedb_example_row3,
      iedb_example_row4]"

text \<open>The example table after the two \<open>drop_duplicates\<close>: row 1 is gone.\<close>

definition iedb_example_deduped :: dataframe where
  "iedb_example_deduped =
     \<lparr>columns = iedb_example_cols,
      recs = [(0, iedb_example_row0), (2, iedb_example_row2), (3, iedb_example_row3),
              (4, iedb_example_row4)]\<rparr>"

text \<open>
  The columns and rows that the loop of \<open>iedb\<close> sees for the example table: row \<open>k\<close>
  of the deduplicated table, back-filled, with its cell identifier.
\<close>

definition iedb_example_loop_cols :: "string list" where
  "iedb_example_loop_cols = add_column ''cell_id'' iedb_example_cols"

definition iedb_example_loop_row :: "nat \<Rightarrow> row" where
  "iedb_example_loop_row k =
     (backfill_row (snd (recs iedb_example_deduped ! k)))(''cell_id'' := Num (int k))"

text \<open>The values of a field in the chains of a cell, when a row was normalized.\<close>

definition chain_values :: "exc + airr_cell \<Rightarrow> string \<Rightarrow> val option list" where
  "chain_values res k = (case res of Inl e \<Rightarrow> [] | Inr cell \<Rightarrow> map (\<lambda>ch. ch k) (chains cell))"

text \<open>
  Worlds for the cache: the cache read has the given outcome at every path, the remote
  table is the VDJDB example, and storing the cache succeeds.
\<close>

definition example_adata :: adata where
  "example_adata =
     (index_chains (from_airr_cells []))\<lparr>uns_DB := Some (''VDJDB'', ''2023-03-01T12:00:00'')\<rparr>"

definition example_world :: "exc + adata \<Rightarrow> world" where
  "example_world outcome =
     \<lparr>read_h5ad = (\<lambda>path. outcome),
      fetch = Inr (vdjdb_example_cols, [vdjdb_example_row]),
      now_isoformat = ''2023-03-02T09:30:00'',
      write_h5ad = (\<lambda>path a. None)\<rparr>"

text \<open>The metadata values of a cell under the given keys, when a row was normalized.\<close>

definition attr_values :: "exc + airr_cell \<Rightarrow> string list \<Rightarrow> val option list" where
  "attr_values res ks = (case res of Inl e \<Rightarrow> [] | Inr cell \<Rightarrow> map (attrs cell) ks)"

section \<open>Properties: reading rows\<close>

lemma bind_exc_Inr_iff: "bind_exc m f = Inr y \<longleftrightarrow> (\<exists>x. m = Inr x \<and> f x = Inr y)"
  by (cases m) auto

lemma getitem_Inr_iff: "getitem cols r c = Inr v \<longleftrightarrow> c \<in> set cols \<and> v = r c"
  by (auto simp: getitem_def)

lemma getitem_col: "c \<in> set cols \<Longrightarrow> getitem cols r c = Inr (r c)"
  by (simp add: getitem_def)

lemma copy_fields_Inr:
  "copy_fields fs cols r cell = Inr cell' \<Longrightarrow>
     set fs \<subseteq> set cols \<and> chains cell' = chains cell \<and> cell_id cell' = cell_id cell \<and>
     attrs cell' = attrs cell ++ map_of (map (\<lambda>f. (f, r f)) (rev fs))"
proof (induction fs arbitrary: cell)
  case Nil
  then show ?case by simp
next
  case (Cons f fs)
  from Cons.prems have f: "f \<in> set cols"
    and rest: "copy_fields fs cols r (setitem cell f (r f)) = Inr cell'"
    by (auto simp: bind_exc_Inr_iff getitem_Inr_iff)
  from Cons.IH [OF rest] show ?case using f
    by (auto simp: setitem_def map_add_def fun_eq_iff split: option.splits)
qed

lemma copy_fields_total:
  "set fs \<subseteq> set cols \<Longrightarrow> \<exists>cell'. copy_fields fs cols r cell = Inr cell'"
  by (induction fs arbitrary: cell) (auto simp: getitem_col)

lemma distinct_INCLUDE: "distinct INCLUDE_CELL_METADATA_FIELDS"
  by (simp add: INCLUDE_CELL_METADATA_FIELDS_def)

lemma length_INCLUDE: "length INCLUDE_CELL_METADATA_FIELDS = 25"
  by (simp add: INCLUDE_CELL_METADATA_FIELDS_def)

section \<open>Properties: VDJDB\<close>

lemma vdjdb_row_Inr:
  assumes "vdjdb_row cols idx r = Inr cell"
  shows "cell_id cell = Str (str_of_nat idx)"
    and "chains cell =
      (if isnull (r ''cdr3.alpha'') then []
       else [empty_chain_dict(''locus'' \<mapsto> Str ''TRA'', ''junction_aa'' \<mapsto> r ''cdr3.alpha'',
                ''v_call'' \<mapsto> r ''v.alpha'', ''j_call'' \<mapsto> r ''j.alpha'',
                ''consensus_count'' \<mapsto> Num 0, ''productive'' \<mapsto> Flag True)]) @
      (if isnull (r ''cdr3.beta'') then []
       else [empty_chain_dict(''locus'' \<mapsto> Str ''TRB'', ''junction_aa'' \<mapsto> r ''cdr3.beta'',
                ''v_call'' \<mapsto> r ''v.beta'', ''d_call'' \<mapsto> r ''d.beta'', ''j_call'' \<mapsto> r ''j.beta'',
                ''consensus_count'' \<mapsto> Num 0, ''productive'' \<mapsto> Flag True)])"
    and "attrs cell = map_of (map (\<lambda>f. (f, r f)) (rev INCLUDE_CELL_METADATA_FIELDS))"
    and "set INCLUDE_CELL_METADATA_FIELDS \<subseteq> set cols"
proof -
  from assms obtain c2 where
    c2: "copy_fields INCLUDE_CELL_METADATA_FIELDS cols r c2 = Inr cell"
    and c2_id: "cell_id c2 = Str (str_of_nat idx)"
    and c2_attrs: "attrs c2 = Map.empty"
    and c2_chains: "chains c2 =
      (if isnull (r ''cdr3.alpha'') then []
       else [empty_chain_dict(''locus'' \<mapsto> Str ''TRA'', ''junction_aa'' \<mapsto> r ''cdr3.alpha'',
                ''v_call'' \<mapsto> r ''v.alpha'', ''j_call'' \<mapsto> r ''j.alpha'',
                ''consensus_count'' \<mapsto> Num 0, ''productive'' \<mapsto> Flag True)]) @
      (if isnull (r ''cdr3.beta'') then []
       else [empty_chain_dict(''locus'' \<mapsto> Str ''TRB'', ''junction_aa'' \<mapsto> r ''cdr3.beta'',
                ''v_call'' \<mapsto> r ''v.beta'', ''d_call'' \<mapsto> r ''d.beta'', ''j_call'' \<mapsto> r ''j.beta'',
                ''consensus_count'' \<mapsto> Num 0, ''productive'' \<mapsto> Flag True)])"
    unfolding vdjdb_row_def Let_def
    by (auto simp: bind_exc_Inr_iff getitem_Inr_iff add_chain_def AirrCell_def
        split: if_splits)
  from copy_fields_Inr [OF c2] c2_id c2_attrs c2_chains
  show "cell_id cell = Str (str_of_nat idx)"
    and "chains cell =
      (if isnull (r ''cdr3.alpha'') then []
       else [empty_chain_dict(''locus'' \<mapsto> Str ''TRA'', ''junction_aa'' \<mapsto> r ''cdr3.alpha'',
                ''v_call'' \<mapsto> r ''v.alpha'', ''j_call'' \<mapsto> r ''j.alpha'',
                ''consensus_count'' \<mapsto> Num 0, ''productive'' \<mapsto> Flag True)]) @
      (if isnull (r ''cdr3.beta'') then []
       else [empty_chain_dict(''locus'' \<mapsto> Str ''TRB'', ''junction_aa'' \<mapsto> r ''cdr3.beta'',
                ''v_call'' \<mapsto> r ''v.beta'', ''d_call'' \<mapsto> r ''d.beta'', ''j_call'' \<mapsto> r ''j.beta'',
                ''consensus_count'' \<mapsto> Num 0, ''productive'' \<mapsto> Flag True)])"
    and "attrs cell = map_of (map (\<lambda>f. (f, r f)) (rev INCLUDE_CELL_METADATA_FIELDS))"
    and "set INCLUDE_CELL_METADATA_FIELDS \<subseteq> set cols"
    by simp_all
qed

lemma vdjdb_row_total:
  assumes "set vdjdb_columns \<subseteq> set cols"
  shows "\<exists>cell. vdjdb_row cols idx r = Inr cell"
proof -
  from assms have inc: "set INCLUDE_CELL_METADATA_FIELDS \<subseteq> set cols"
    and c: "''cdr3.alpha'' \<in> set cols" "''v.alpha'' \<in> set cols" "''j.alpha'' \<in> set cols"
      "''cdr3.beta'' \<in> set cols" "''v.beta'' \<in> set cols" "''d.beta'' \<in> set cols"
      "''j.beta'' \<in> set cols"
    by (auto simp: vdjdb_columns_def)
  show ?thesis
    unfolding vdjdb_row_def Let_def
    by (simp add: getitem_col c copy_fields_total [OF inc])
qed

text \<open>
  C1. A VDJDB row that has the columns \<open>vdjdb\<close> reads is normalized to a cell, and
  whenever a row is normalized to a cell, the cell has one TRA chain if \<open>cdr3.alpha\<close> is
  non-null and none otherwise, one TRB chain if \<open>cdr3.beta\<close> is non-null and none
  otherwise, and no other chain (so zero, one or two chains); every chain has
  \<open>consensus_count\<close> 0 and \<open>productive\<close> true; the TRA chain's \<open>junction_aa\<close> is
  \<open>cdr3.alpha\<close> and the TRB chain's is \<open>cdr3.beta\<close>.
\<close>

theorem vdjdb_row_chains:
  "(set vdjdb_columns \<subseteq> set cols \<longrightarrow> (\<exists>cell. vdjdb_row cols idx r = Inr cell)) \<and>
   (\<forall>cell. vdjdb_row cols idx r = Inr cell \<longrightarrow>
      length (filter (\<lambda>ch. ch ''locus'' = Some (Str ''TRA'')) (chains cell)) =
        (if isnull (r ''cdr3.alpha'') then 0 else 1) \<and>
      length (filter (\<lambda>ch. ch ''locus'' = Some (Str ''TRB'')) (chains cell)) =
        (if isnull (r ''cdr3.beta'') then 0 else 1) \<and>
      length (chains cell) =
        (if isnull (r ''cdr3.alpha'') then 0 else 1) + (if isnull (r ''cdr3.beta'') then 0 else 1) \<and>
      (\<forall>ch \<in> set (chains cell).
         ch ''consensus_count'' = Some (Num 0) \<and> ch ''productive'' = Some (Flag True) \<and>
         (ch ''locus'' = Some (Str ''TRA'') \<and> ch ''junction_aa'' = Some (r ''cdr3.alpha'') \<or>
          ch ''locus'' = Some (Str ''TRB'') \<and> ch ''junction_aa'' = Some (r ''cdr3.beta''))))"
proof (intro conjI impI allI)
  assume "set vdjdb_columns \<subseteq> set cols"
  then show "\<exists>cell. vdjdb_row cols idx r = Inr cell" by (rule vdjdb_row_total)
next
  fix cell assume "vdjdb_row cols idx r = Inr cell"
  note ch = vdjdb_row_Inr(2) [OF this]
  show "length (filter (\<lambda>ch. ch ''locus'' = Some (Str ''TRA'')) (chains cell)) =
        (if isnull (r ''cdr3.alpha'') then 0 else 1)"
    by (simp add: ch)
  show "length (filter (\<lambda>ch. ch ''locus'' = Some (Str ''TRB'')) (chains cell)) =
        (if isnull (r ''cdr3.beta'') then 0 else 1)"
    by (simp add: ch)
  show "length (chains cell) =
        (if isnull (r ''cdr3.alpha'') then 0 else 1) + (if isnull (r ''cdr3.beta'') then 0 else 1)"
    by (simp add: ch)
  show "\<forall>ch \<in> set (chains cell).
         ch ''consensus_count'' = Some (Num 0) \<and> ch ''productive'' = Some (Flag True) \<and>
         (ch ''locus'' = Some (Str ''TRA'') \<and> ch ''junction_aa'' = Some (r ''cdr3.alpha'') \<or>
          ch ''locus'' = Some (Str ''TRB'') \<and> ch ''junction_aa'' = Some (r ''cdr3.beta''))"
    by (simp add: ch)
qed

theorem vdjdb_row_chains_witness:
  "set vdjdb_columns \<subseteq> set vdjdb_example_cols \<and>
   (\<exists>cell. vdjdb_row vdjdb_example_cols 0 vdjdb_example_row = Inr cell \<and>
      length (chains cell) = 1 \<and>
      length (filter (\<lambda>ch. ch ''locus'' = Some (Str ''TRA'')) (chains cell)) = 1 \<and>
      length (filter (\<lambda>ch. ch ''locus'' = Some (Str ''TRB'')) (chains cell)) = 0)"
proof -
  have cols: "set vdjdb_columns \<subseteq> set vdjdb_example_cols"
    by (auto simp: vdjdb_example_cols_def)
  note t = vdjdb_row_chains [of vdjdb_example_cols 0 vdjdb_example_row]
  from t cols obtain cell where
    cell: "vdjdb_row vdjdb_example_cols 0 vdjdb_example_row = Inr cell" by blast
  have a: "\<not> isnull (vdjdb_example_row ''cdr3.alpha'')"
    and b: "isnull (vdjdb_example_row ''cdr3.beta'')"
    by (simp_all add: vdjdb_example_row_def mk_row_def isnull_def)
  from t cell a b have
    "length (chains cell) = 1 \<and>
     length (filter (\<lambda>ch. ch ''locus'' = Some (Str ''TRA'')) (chains cell)) = 1 \<and>
     length (filter (\<lambda>ch. ch ''locus'' = Some (Str ''TRB'')) (chains cell)) = 0"
    by simp
  with cols cell show ?thesis by blast
qed

section \<open>Properties: the table operations of IEDB preprocessing\<close>

lemma keep_first_set: "set (keep_first cs seen xs) \<subseteq> set xs"
  by (induction cs seen xs rule: keep_first.induct) auto

lemma keep_first_labels:
  "distinct (map fst xs) \<Longrightarrow> distinct (map fst (keep_first cs seen xs))"
proof (induction cs seen xs rule: keep_first.induct)
  case (1 cs seen)
  then show ?case by simp
next
  case (2 cs seen l r rs)
  have "fst ` set (keep_first cs (map r cs # seen) rs) \<subseteq> fst ` set rs"
    using keep_first_set by (rule image_mono)
  with 2 show ?case by auto
qed

lemma keep_first_keys:
  "distinct (map (\<lambda>(l, r). map r cs) (keep_first cs seen xs)) \<and>
   (\<forall>(l, r) \<in> set (keep_first cs seen xs). map r cs \<notin> set seen)"
proof (induction cs seen xs rule: keep_first.induct)
  case (1 cs seen)
  then show ?case by simp
next
  case (2 cs seen l r rs)
  then show ?case by (cases "map r cs \<in> set seen") (auto 4 3)
qed

lemma drop_duplicates_None:
  "drop_duplicates None df = Inr (df\<lparr>recs := keep_first (columns df) [] (recs df)\<rparr>)"
  by (simp add: drop_duplicates_def)

lemma drop_duplicates_Some:
  "drop_duplicates (Some cs) df =
     (if set cs \<subseteq> set (columns df) then Inr (df\<lparr>recs := keep_first cs [] (recs df)\<rparr>)
      else Inl (KeyError (Str (hd (filter (\<lambda>c. c \<notin> set (columns df)) cs)))))"
proof (cases "filter (\<lambda>c. c \<notin> set (columns df)) cs")
  case Nil
  then show ?thesis by (auto simp: drop_duplicates_def filter_empty_conv)
next
  case (Cons c rest)
  then have "c \<in> set (filter (\<lambda>c. c \<notin> set (columns df)) cs)" by simp
  then have "\<not> set cs \<subseteq> set (columns df)" by auto
  with Cons show ?thesis by (simp add: drop_duplicates_def)
qed

lemma iedb_dedup_Inr:
  assumes "iedb_dedup df = Inr d"
  shows "columns d = columns df"
    and "set iedb_key \<subseteq> set (columns df)"
    and "set (recs d) \<subseteq> set (recs df)"
    and "distinct (map fst (recs df)) \<Longrightarrow> distinct (map fst (recs d))"
    and "distinct (map (\<lambda>(l, r). map r iedb_key) (recs d))"
proof -
  from assms have k: "set iedb_key \<subseteq> set (columns df)"
    and d: "d = df\<lparr>recs := keep_first iedb_key [] (keep_first (columns df) [] (recs df))\<rparr>"
    by (auto simp: iedb_dedup_def drop_duplicates_None drop_duplicates_Some split: if_splits)
  show "set iedb_key \<subseteq> set (columns df)" by (rule k)
  show "columns d = columns df" by (simp add: d)
  have "set (keep_first iedb_key [] (keep_first (columns df) [] (recs df)))
          \<subseteq> set (keep_first (columns df) [] (recs df))"
    by (rule keep_first_set)
  also have "\<dots> \<subseteq> set (recs df)"
    by (rule keep_first_set)
  finally show "set (recs d) \<subseteq> set (recs df)" by (simp add: d)
  show "distinct (map fst (recs d))" if "distinct (map fst (recs df))"
    using that by (simp add: d keep_first_labels)
  show "distinct (map (\<lambda>(l, r). map r iedb_key) (recs d))"
    using keep_first_keys [of iedb_key "[]"] by (simp add: d)
qed

lemma iedb_dedup_total:
  "set iedb_key \<subseteq> set (columns df) \<Longrightarrow> \<exists>d. iedb_dedup df = Inr d"
  by (simp add: iedb_dedup_def drop_duplicates_None drop_duplicates_Some)

lemma read_csv_labels: "map fst (recs (read_csv cols rows)) = [0..<length rows]"
  by (simp add: read_csv_def)

lemma read_csv_distinct: "distinct (map fst (recs (read_csv cols rows)))"
  by (simp add: read_csv_labels)

lemma read_csv_mem:
  "(l, r) \<in> set (recs (read_csv cols rows)) \<longleftrightarrow> l < length rows \<and> r = rows ! l"
  by (force simp: read_csv_def set_zip)

lemma map_of_labelled:
  assumes "distinct (map fst xs)" and "(l, r) \<in> set xs"
  shows "map_of (map (\<lambda>(l, r). (l, f r)) xs) l = Some (f r)"
  using assms by (induction xs) (auto simp: rev_image_eqI)

lemma aligned_labelled:
  "distinct (map fst xs) \<Longrightarrow> (l, r) \<in> set xs \<Longrightarrow> aligned (map (\<lambda>(l, r). (l, f r)) xs) l = f r"
  by (simp add: aligned_def map_of_labelled)

lemma series_map:
  "map (\<lambda>(l, v). (l, g v)) (map (\<lambda>(l, r). (l, f r)) xs) = map (\<lambda>(l, r). (l, g (f r))) xs"
  by (induction xs) auto

lemma labels_comp: "fst \<circ> (\<lambda>(l, r). (l, f r)) = fst"
  by (auto simp: fun_eq_iff)

lemma loc_setitem_eq:
  assumes "distinct (map fst (recs df))"
  shows "loc_setitem (map (\<lambda>(l, r). (l, p r)) (recs df)) c (map (\<lambda>(l, r). (l, f r)) (recs df)) df =
         df\<lparr>recs := map (\<lambda>(l, r). (l, if p r then r(c := f r) else r)) (recs df)\<rparr>"
proof -
  have "map (\<lambda>(l, r). if map_of (map (\<lambda>(l, r). (l, p r)) (recs df)) l = Some True
                        then (l, r(c := aligned (map (\<lambda>(l, r). (l, f r)) (recs df)) l))
                        else (l, r)) (recs df) =
        map (\<lambda>(l, r). (l, if p r then r(c := f r) else r)) (recs df)"
    by (rule map_cong [OF refl])
      (auto simp: map_of_labelled [OF assms] aligned_labelled [OF assms])
  then show ?thesis by (simp add: loc_setitem_def)
qed

lemma setitem_series_eq:
  assumes "distinct (map fst (recs df))" and "c \<in> set (columns df)"
  shows "setitem_series c (map (\<lambda>(l, r). (l, f r)) (recs df)) df =
         df\<lparr>recs := map (\<lambda>(l, r). (l, r(c := f r))) (recs df)\<rparr>"
proof -
  have "map (\<lambda>(l, r). (l, r(c := aligned (map (\<lambda>(l, r). (l, f r)) (recs df)) l))) (recs df) =
        map (\<lambda>(l, r). (l, r(c := f r))) (recs df)"
    by (rule map_cong [OF refl]) (auto simp: aligned_labelled [OF assms(1)])
  then show ?thesis using assms(2) by (simp add: setitem_series_def add_column_def)
qed

lemma bind_exc_if:
  "bind_exc (if b then Inr x else Inl e) f = (if b then f x else Inl e)"
  by simp

lemma backfill_upper_eq:
  assumes d: "distinct (map fst (recs df))"
    and c: "inp \<in> set (columns df)"
      "python_replace ''Curated'' ''Calculated'' inp \<in> set (columns df)"
  shows "backfill_upper inp df =
         (if has_text (map (\<lambda>(l, r). filled r inp) (recs df))
          then Inr (df\<lparr>recs := map (\<lambda>(l, r). (l, r(inp := backfilled r inp))) (recs df)\<rparr>)
          else Inl (Other ''AttributeError''))"
proof -
  let ?calc = "python_replace ''Curated'' ''Calculated'' inp"
  define df1 where
    "df1 = df\<lparr>recs := map (\<lambda>(l, r). (l, if isnull (r inp) then r(inp := r ?calc) else r)) (recs df)\<rparr>"
  have g1: "get_column df ?calc = Inr (map (\<lambda>(l, r). (l, r ?calc)) (recs df))"
    and g2: "get_column df inp = Inr (map (\<lambda>(l, r). (l, r inp)) (recs df))"
    using c by (simp_all add: get_column_def)
  have 1: "loc_setitem (isna (map (\<lambda>(l, r). (l, r inp)) (recs df))) inp
             (map (\<lambda>(l, r). (l, r ?calc)) (recs df)) df = df1"
    unfolding isna_def series_map df1_def by (rule loc_setitem_eq [OF d])
  have d1: "distinct (map fst (recs df1))" using d by (simp add: df1_def labels_comp)
  have c1: "inp \<in> set (columns df1)" using c by (simp add: df1_def)
  then have g3: "get_column df1 inp = Inr (map (\<lambda>(l, r). (l, r inp)) (recs df1))"
    by (simp add: get_column_def)
  have vals: "map snd (map (\<lambda>(l, r). (l, r inp)) (recs df1)) =
              map (\<lambda>(l, r). filled r inp) (recs df)"
    by (auto simp: df1_def filled_def)
  have su: "str_upper (map (\<lambda>(l, r). (l, r inp)) (recs df1)) =
            (if has_text (map (\<lambda>(l, r). filled r inp) (recs df))
             then Inr (map (\<lambda>(l, r). (l, upper (r inp))) (recs df1))
             else Inl (Other ''AttributeError''))"
    unfolding str_upper_def vals series_map ..
  have 2: "setitem_series inp (map (\<lambda>(l, r). (l, upper (r inp))) (recs df1)) df1 =
           df1\<lparr>recs := map (\<lambda>(l, r). (l, r(inp := upper (r inp)))) (recs df1)\<rparr>"
    by (rule setitem_series_eq [OF d1 c1])
  have 3: "df1\<lparr>recs := map (\<lambda>(l, r). (l, r(inp := upper (r inp)))) (recs df1)\<rparr> =
           df\<lparr>recs := map (\<lambda>(l, r). (l, r(inp := backfilled r inp))) (recs df)\<rparr>"
  proof -
    have eq: "(\<lambda>(l, r). (l, r(inp := upper (r inp)))) \<circ>
          (\<lambda>(l, r). (l, if isnull (r inp) then r(inp := r ?calc) else r)) =
          (\<lambda>(l, r). (l, r(inp := backfilled r inp)))"
      by (auto simp: fun_eq_iff backfilled_def filled_def)
    show ?thesis by (simp add: df1_def) (simp only: eq)
  qed
  show ?thesis
    unfolding backfill_upper_def Let_def
    by (simp only: g1 g2 bind_exc.simps 1 g3 su bind_exc_if 2 3)
qed

lemma calculated_names:
  "python_replace ''Curated'' ''Calculated'' ''Chain 1 CDR3 Curated'' = ''Chain 1 CDR3 Calculated''"
  "python_replace ''Curated'' ''Calculated'' ''Chain 2 CDR3 Curated'' = ''Chain 2 CDR3 Calculated''"
  "python_replace ''Curated'' ''Calculated'' ''Curated Chain 1 V Gene'' = ''Calculated Chain 1 V Gene''"
  "python_replace ''Curated'' ''Calculated'' ''Curated Chain 2 V Gene'' = ''Calculated Chain 2 V Gene''"
  "python_replace ''Curated'' ''Calculated'' ''Curated Chain 1 D Gene'' = ''Calculated Chain 1 D Gene''"
  "python_replace ''Curated'' ''Calculated'' ''Curated Chain 2 D Gene'' = ''Calculated Chain 2 D Gene''"
  "python_replace ''Curated'' ''Calculated'' ''Curated Chain 1 J Gene'' = ''Calculated Chain 1 J Gene''"
  "python_replace ''Curated'' ''Calculated'' ''Curated Chain 2 J Gene'' = ''Calculated Chain 2 J Gene''"
  by (simp_all add: python_replace.simps)

lemma backfill_upper_step:
  assumes d: "distinct (map fst (recs df))"
    and c: "inp \<in> set (columns df)"
      "python_replace ''Curated'' ''Calculated'' inp \<in> set (columns df)"
  shows "backfill_upper inp (df\<lparr>recs := map (\<lambda>(l, r). (l, F r)) (recs df)\<rparr>) =
         (if has_text (map (\<lambda>(l, r). filled (F r) inp) (recs df))
          then Inr (df\<lparr>recs := map (\<lambda>(l, r). (l, (F r)(inp := backfilled (F r) inp))) (recs df)\<rparr>)
          else Inl (Other ''AttributeError''))"
proof -
  let ?df = "df\<lparr>recs := map (\<lambda>(l, r). (l, F r)) (recs df)\<rparr>"
  have d': "distinct (map fst (recs ?df))" using d by (simp add: labels_comp)
  have c': "inp \<in> set (columns ?df)"
    "python_replace ''Curated'' ''Calculated'' inp \<in> set (columns ?df)"
    using c by simp_all
  have r: "map (\<lambda>(l, r). (l, r(inp := backfilled r inp))) (recs ?df) =
        map (\<lambda>(l, r). (l, (F r)(inp := backfilled (F r) inp))) (recs df)"
    by auto
  have t: "map (\<lambda>(l, r). filled r inp) (recs ?df) = map (\<lambda>(l, r). filled (F r) inp) (recs df)"
    by auto
  show ?thesis
    unfolding backfill_upper_eq [OF d' c'] r t by simp
qed

text \<open>
  The four calls of \<open>replace_curated\<close> on a table with distinct labels and the columns
  they read: \<open>AttributeError\<close> when one of the eight curated columns, back-filled, does
  not hold text, and else the table whose rows are back-filled and upper-cased.
\<close>

lemma iedb_backfill_cases:
  assumes d: "distinct (map fst (recs df))"
    and c: "set curated_columns \<subseteq> set (columns df)"
      "set (map (python_replace ''Curated'' ''Calculated'') curated_columns) \<subseteq> set (columns df)"
  shows "iedb_backfill df =
     (if \<forall>c \<in> set curated_columns. has_text (map (\<lambda>(l, r). filled r c) (recs df))
      then Inr (df\<lparr>recs := map (\<lambda>(l, r). (l, backfill_row r)) (recs df)\<rparr>)
      else Inl (Other ''AttributeError''))"
proof -
  define G where "G = (\<lambda>cs (r :: row) c. if c \<in> set cs then backfilled r c else r c)"
  define T where "T = (\<lambda>c. has_text (map (\<lambda>(l, r). filled r c) (recs df)))"
  have step: "backfill_upper c (df\<lparr>recs := map (\<lambda>(l, r). (l, G cs r)) (recs df)\<rparr>) =
              (if T c then Inr (df\<lparr>recs := map (\<lambda>(l, r). (l, G (c # cs) r)) (recs df)\<rparr>)
               else Inl (Other ''AttributeError''))"
    if "c \<in> set (columns df)" "python_replace ''Curated'' ''Calculated'' c \<in> set (columns df)"
      "c \<notin> set cs" "python_replace ''Curated'' ''Calculated'' c \<notin> set cs" for c cs
  proof -
    have eq: "(G cs r)(c := backfilled (G cs r) c) = G (c # cs) r" for r
      using that(3,4) by (auto simp: fun_eq_iff G_def backfilled_def filled_def)
    have f: "filled (G cs r) c = filled r c" for r
      using that(3,4) by (simp add: G_def filled_def)
    show ?thesis
      unfolding backfill_upper_step [OF d that(1,2)] T_def by (simp only: eq f)
  qed
  have cols: "''Chain 1 CDR3 Curated'' \<in> set (columns df)" "''Chain 2 CDR3 Curated'' \<in> set (columns df)"
    "''Curated Chain 1 V Gene'' \<in> set (columns df)" "''Curated Chain 2 V Gene'' \<in> set (columns df)"
    "''Curated Chain 1 D Gene'' \<in> set (columns df)" "''Curated Chain 2 D Gene'' \<in> set (columns df)"
    "''Curated Chain 1 J Gene'' \<in> set (columns df)" "''Curated Chain 2 J Gene'' \<in> set (columns df)"
    "''Chain 1 CDR3 Calculated'' \<in> set (columns df)" "''Chain 2 CDR3 Calculated'' \<in> set (columns df)"
    "''Calculated Chain 1 V Gene'' \<in> set (columns df)" "''Calculated Chain 2 V Gene'' \<in> set (columns df)"
    "''Calculated Chain 1 D Gene'' \<in> set (columns df)" "''Calculated Chain 2 D Gene'' \<in> set (columns df)"
    "''Calculated Chain 1 J Gene'' \<in> set (columns df)" "''Calculated Chain 2 J Gene'' \<in> set (columns df)"
    using c by (simp_all add: curated_columns_def calculated_names)
  have start: "df = df\<lparr>recs := map (\<lambda>(l, r). (l, G [] r)) (recs df)\<rparr>"
    by (simp add: G_def)
  have all: "(\<forall>c \<in> set curated_columns. has_text (map (\<lambda>(l, r). filled r c) (recs df))) =
             (\<forall>c \<in> set curated_columns. T c)"
    by (simp add: T_def)
  have res: "G (rev curated_columns) = backfill_row"
    by (simp add: G_def backfill_row_def fun_eq_iff)
  have "iedb_backfill df = iedb_backfill (df\<lparr>recs := map (\<lambda>(l, r). (l, G [] r)) (recs df)\<rparr>)"
    using start by simp
  also have "\<dots> =
     (if \<forall>c \<in> set curated_columns. T c
      then Inr (df\<lparr>recs := map (\<lambda>(l, r). (l, G (rev curated_columns) r)) (recs df)\<rparr>)
      else Inl (Other ''AttributeError''))"
    unfolding iedb_backfill_def replace_curated_def
    by (simp add: step calculated_names cols curated_columns_def bind_exc_if)
  finally show ?thesis unfolding all res .
qed

lemma iedb_backfill_eq:
  assumes d: "distinct (map fst (recs df))"
    and c: "set curated_columns \<subseteq> set (columns df)"
      "set (map (python_replace ''Curated'' ''Calculated'') curated_columns) \<subseteq> set (columns df)"
    and t: "\<forall>c \<in> set curated_columns. has_text (map (\<lambda>(l, r). filled r c) (recs df))"
  shows "iedb_backfill df = Inr (df\<lparr>recs := map (\<lambda>(l, r). (l, backfill_row r)) (recs df)\<rparr>)"
  unfolding iedb_backfill_cases [OF d c] using t by simp

lemma replace_curated_Inr:
  assumes "replace_curated c1 c2 df = Inr df'"
  shows "columns df' = columns df" and "c1 \<in> set (columns df)" and "c2 \<in> set (columns df)"
    and "python_replace ''Curated'' ''Calculated'' c1 \<in> set (columns df)"
    and "python_replace ''Curated'' ''Calculated'' c2 \<in> set (columns df)"
  using assms unfolding replace_curated_def backfill_upper_def Let_def
  by (auto simp: bind_exc_Inr_iff get_column_def setitem_series_def loc_setitem_def
      add_column_def split: if_splits)

lemma iedb_backfill_Inr:
  assumes "iedb_backfill df = Inr df'" and d: "distinct (map fst (recs df))"
  shows "df' = df\<lparr>recs := map (\<lambda>(l, r). (l, backfill_row r)) (recs df)\<rparr>"
    and "set curated_columns \<subseteq> set (columns df)"
    and "set (map (python_replace ''Curated'' ''Calculated'') curated_columns) \<subseteq> set (columns df)"
    and "\<forall>c \<in> set curated_columns. has_text (map (\<lambda>(l, r). filled r c) (recs df))"
proof -
  from assms(1) obtain d1 d2 d3 where
    1: "replace_curated ''Chain 1 CDR3 Curated'' ''Chain 2 CDR3 Curated'' df = Inr d1"
    and 2: "replace_curated ''Curated Chain 1 V Gene'' ''Curated Chain 2 V Gene'' d1 = Inr d2"
    and 3: "replace_curated ''Curated Chain 1 D Gene'' ''Curated Chain 2 D Gene'' d2 = Inr d3"
    and 4: "replace_curated ''Curated Chain 1 J Gene'' ''Curated Chain 2 J Gene'' d3 = Inr df'"
    by (auto simp: iedb_backfill_def bind_exc_Inr_iff)
  note r = replace_curated_Inr [OF 1] replace_curated_Inr [OF 2] replace_curated_Inr [OF 3]
    replace_curated_Inr [OF 4]
  from r show c: "set curated_columns \<subseteq> set (columns df)"
    "set (map (python_replace ''Curated'' ''Calculated'') curated_columns) \<subseteq> set (columns df)"
    by (simp_all add: curated_columns_def)
  note cases = iedb_backfill_cases [OF d c]
  from cases assms(1)
  show t: "\<forall>c \<in> set curated_columns. has_text (map (\<lambda>(l, r). filled r c) (recs df))"
    by (auto split: if_splits)
  from cases assms(1) t
  show "df' = df\<lparr>recs := map (\<lambda>(l, r). (l, backfill_row r)) (recs df)\<rparr>" by simp
qed

lemma iedb_cell_ids_eq:
  "iedb_cell_ids df =
     Inr (df\<lparr>columns := add_column ''cell_id'' (columns df),
            recs := map (\<lambda>i. (fst (recs df ! i), (snd (recs df ! i))(''cell_id'' := Num (int i))))
                      [0..<length (recs df)]\<rparr>)"
proof -
  have "map (\<lambda>((l, r), v). (l, r(''cell_id'' := v)))
          (zip (recs df) (map (\<lambda>i. Num (int i)) [0..<length (recs df)])) =
        map (\<lambda>i. (fst (recs df ! i), (snd (recs df ! i))(''cell_id'' := Num (int i))))
          [0..<length (recs df)]"
    by (rule nth_equalityI) (simp_all add: case_prod_unfold)
  then show ?thesis by (simp add: iedb_cell_ids_def setitem_values_def)
qed

lemma iedb_accepted_eq:
  assumes d: "distinct (map fst (recs df))"
    and c: "''Chain 1 Type'' \<in> set (columns df)" "''Chain 2 Type'' \<in> set (columns df)"
  shows "iedb_accepted df =
     Inr (df\<lparr>recs := filter (\<lambda>(l, r). isin_val (r ''Chain 1 Type'') accepted_chains \<and>
                                      isin_val (r ''Chain 2 Type'') accepted_chains) (recs df)\<rparr>)"
proof -
  let ?P = "\<lambda>r. isin_val (r ''Chain 1 Type'') accepted_chains \<and>
                isin_val (r ''Chain 2 Type'') accepted_chains"
  let ?m = "mask_and (isin (map (\<lambda>(l, r). (l, r ''Chain 1 Type'')) (recs df)) accepted_chains)
              (isin (map (\<lambda>(l, r). (l, r ''Chain 2 Type'')) (recs df)) accepted_chains)"
  have "?m = map (\<lambda>(l, r). (l, ?P r)) (recs df)"
    unfolding mask_and_def isin_def series_map
    by (auto simp: map_of_labelled [OF d])
  then have "filter (\<lambda>(l, r). map_of ?m l = Some True) (recs df) =
             filter (\<lambda>(l, r). ?P r) (recs df)"
    by (auto intro!: filter_cong simp: map_of_labelled [OF d])
  then show ?thesis
    unfolding iedb_accepted_def by (simp add: get_column_def c getitem_mask_def)
qed

lemma backfill_row_other: "c \<notin> set curated_columns \<Longrightarrow> backfill_row r c = r c"
  by (simp add: backfill_row_def)

lemma iedb_preprocess_eq:
  assumes dd: "iedb_dedup df = Inr d"
    and dist: "distinct (map fst (recs df))"
    and c: "set curated_columns \<subseteq> set (columns df)"
      "set (map (python_replace ''Curated'' ''Calculated'') curated_columns) \<subseteq> set (columns df)"
    and t: "\<forall>c \<in> set curated_columns. has_text (map (\<lambda>(l, r). filled r c) (recs d))"
  shows "iedb_preprocess df =
     Inr (d\<lparr>columns := add_column ''cell_id'' (columns d),
            recs := map (\<lambda>k. (fst (recs d ! k),
                            (backfill_row (snd (recs d ! k)))(''cell_id'' := Num (int k))))
                      (filter (\<lambda>k. isin_val (snd (recs d ! k) ''Chain 1 Type'') accepted_chains \<and>
                                   isin_val (snd (recs d ! k) ''Chain 2 Type'') accepted_chains)
                         [0..<length (recs d)])\<rparr>)"
proof -
  note D = iedb_dedup_Inr [OF dd]
  have dist_d: "distinct (map fst (recs d))" using D(4) dist by simp
  define d1 where "d1 = d\<lparr>recs := map (\<lambda>(l, r). (l, backfill_row r)) (recs d)\<rparr>"
  have 1: "iedb_backfill d = Inr d1"
    unfolding d1_def using c t by (intro iedb_backfill_eq [OF dist_d]) (simp_all add: D(1))
  define g where "g = (\<lambda>k. (fst (recs d ! k),
                            (backfill_row (snd (recs d ! k)))(''cell_id'' := Num (int k))))"
  define d2 where "d2 = d\<lparr>columns := add_column ''cell_id'' (columns d),
                          recs := map g [0..<length (recs d)]\<rparr>"
  have 2: "iedb_cell_ids d1 = Inr d2"
    unfolding iedb_cell_ids_eq by (simp add: d1_def d2_def g_def case_prod_unfold)
  have "map fst (recs d2) = map fst (recs d)"
    by (rule nth_equalityI) (simp_all add: d2_def g_def)
  with dist_d have dist2: "distinct (map fst (recs d2))" by simp
  from D(2) have "''Chain 1 Type'' \<in> set (columns d)" "''Chain 2 Type'' \<in> set (columns d)"
    by (simp_all add: D(1) iedb_key_def)
  then have t: "''Chain 1 Type'' \<in> set (columns d2)" "''Chain 2 Type'' \<in> set (columns d2)"
    by (simp_all add: d2_def add_column_def)
  have acc: "isin_val (snd (g k) c) accepted_chains = isin_val (snd (recs d ! k) c) accepted_chains"
    if "c = ''Chain 1 Type'' \<or> c = ''Chain 2 Type''" for k c
    using that by (auto simp: g_def backfill_row_other curated_columns_def)
  have 3: "iedb_accepted d2 =
     Inr (d2\<lparr>recs := map g (filter (\<lambda>k. isin_val (snd (recs d ! k) ''Chain 1 Type'') accepted_chains \<and>
                                   isin_val (snd (recs d ! k) ''Chain 2 Type'') accepted_chains)
                         [0..<length (recs d)])\<rparr>)"
    unfolding iedb_accepted_eq [OF dist2 t]
    by (simp add: d2_def filter_map comp_def case_prod_unfold acc)
  show ?thesis
    unfolding iedb_preprocess_def
    by (simp add: dd 1 2 3) (simp add: d2_def g_def)
qed

lemma iedb_preprocess_Inr:
  assumes "iedb_preprocess df = Inr p" and dist: "distinct (map fst (recs df))"
  obtains d where "iedb_dedup df = Inr d"
    and "p = d\<lparr>columns := add_column ''cell_id'' (columns d),
            recs := map (\<lambda>k. (fst (recs d ! k),
                            (backfill_row (snd (recs d ! k)))(''cell_id'' := Num (int k))))
                      (filter (\<lambda>k. isin_val (snd (recs d ! k) ''Chain 1 Type'') accepted_chains \<and>
                                   isin_val (snd (recs d ! k) ''Chain 2 Type'') accepted_chains)
                         [0..<length (recs d)])\<rparr>"
    and "set curated_columns \<subseteq> set (columns df)"
    and "set (map (python_replace ''Curated'' ''Calculated'') curated_columns) \<subseteq> set (columns df)"
proof -
  from assms(1) obtain d d1 where dd: "iedb_dedup df = Inr d" and 1: "iedb_backfill d = Inr d1"
    by (auto simp: iedb_preprocess_def bind_exc_Inr_iff)
  note D = iedb_dedup_Inr [OF dd]
  have dist_d: "distinct (map fst (recs d))" using D(4) dist by simp
  from iedb_backfill_Inr(2,3) [OF 1 dist_d]
  have c: "set curated_columns \<subseteq> set (columns df)"
    "set (map (python_replace ''Curated'' ''Calculated'') curated_columns) \<subseteq> set (columns df)"
    by (simp_all add: D(1))
  note t = iedb_backfill_Inr(4) [OF 1 dist_d]
  from iedb_preprocess_eq [OF dd dist c t] assms(1) dd c that show thesis by simp
qed

section \<open>Properties: IEDB rows and the whole run\<close>

lemma receptor_dict_accepted:
  "isin_val v accepted_chains \<Longrightarrow> \<exists>l. receptor_dict_getitem v = Inr l"
  by (cases v) (auto simp: isin_val_def accepted_chains_def receptor_dict_getitem_def receptor_dict_def)

lemma receptor_dict_light: "receptor_dict_getitem (Str ''light'') = Inr Null"
  by (simp add: receptor_dict_getitem_def receptor_dict_def)

lemma infer_locus_cong:
  "(\<And>k. k \<in> set ks \<Longrightarrow> ch k = ch' k) \<Longrightarrow>
   infer_locus_from_gene_names ch ks = infer_locus_from_gene_names ch' ks"
  by (induction ks) (auto split: option.splits val.splits)

lemma call_locus_fields [simp]:
  "k \<noteq> ''locus'' \<Longrightarrow> call_locus ch k = ch k"
  by (simp add: call_locus_def)

lemma call_locus_locus:
  "call_locus ch ''locus'' =
     (if ch ''locus'' = Some Null
      then Some (infer_locus_from_gene_names (call_locus ch) [''v_call'', ''d_call'', ''j_call''])
      else ch ''locus'')"
proof -
  have eq: "infer_locus_from_gene_names (call_locus ch) [''v_call'', ''d_call'', ''j_call''] =
        infer_locus_from_gene_names ch [''v_call'', ''d_call'', ''j_call'']"
    by (rule infer_locus_cong) auto
  show ?thesis
    unfolding eq by (simp add: call_locus_def del: infer_locus_from_gene_names.simps)
qed

lemma iedb_row_Inr:
  assumes "iedb_row cols r = Inr cell"
  obtains chain1 chain2 locus1 locus2 where
    "receptor_dict_getitem (r ''Chain 1 Type'') = Inr locus1"
    "receptor_dict_getitem (r ''Chain 2 Type'') = Inr locus2"
    "chain1 = empty_chain_dict(''locus'' \<mapsto> locus1,
        ''junction_aa'' \<mapsto> r ''Chain 1 CDR3 Curated'',
        ''junction'' \<mapsto> Null, ''consensus_count'' \<mapsto> Null,
        ''v_call'' \<mapsto> r ''Curated Chain 1 V Gene'', ''d_call'' \<mapsto> Null,
        ''j_call'' \<mapsto> r ''Curated Chain 1 J Gene'', ''productive'' \<mapsto> Flag True)"
    "chain2 = empty_chain_dict(''locus'' \<mapsto> locus2,
        ''junction_aa'' \<mapsto> r ''Chain 2 CDR3 Curated'',
        ''junction'' \<mapsto> Null, ''consensus_count'' \<mapsto> Null,
        ''v_call'' \<mapsto> r ''Curated Chain 2 V Gene'', ''d_call'' \<mapsto> r ''Curated Chain 2 D Gene'',
        ''j_call'' \<mapsto> r ''Curated Chain 2 J Gene'', ''productive'' \<mapsto> Flag True)"
    "chains cell = [call_locus chain1, call_locus chain2]"
    "cell_id cell = r ''cell_id''"
    "attrs cell = map_of (map (\<lambda>f. (f, r f)) (rev iedb_cell_fields))"
proof -
  from assms obtain c0 locus1 locus2 where
    c0: "copy_fields iedb_cell_fields cols r (AirrCell (r ''cell_id'')) = Inr c0"
    and l: "receptor_dict_getitem (r ''Chain 1 Type'') = Inr locus1"
      "receptor_dict_getitem (r ''Chain 2 Type'') = Inr locus2"
    and cell: "cell = add_chains
       [empty_chain_dict(''locus'' \<mapsto> locus1,
        ''junction_aa'' \<mapsto> r ''Chain 1 CDR3 Curated'',
        ''junction'' \<mapsto> Null, ''consensus_count'' \<mapsto> Null,
        ''v_call'' \<mapsto> r ''Curated Chain 1 V Gene'', ''d_call'' \<mapsto> Null,
        ''j_call'' \<mapsto> r ''Curated Chain 1 J Gene'', ''productive'' \<mapsto> Flag True),
        empty_chain_dict(''locus'' \<mapsto> locus2,
        ''junction_aa'' \<mapsto> r ''Chain 2 CDR3 Curated'',
        ''junction'' \<mapsto> Null, ''consensus_count'' \<mapsto> Null,
        ''v_call'' \<mapsto> r ''Curated Chain 2 V Gene'', ''d_call'' \<mapsto> r ''Curated Chain 2 D Gene'',
        ''j_call'' \<mapsto> r ''Curated Chain 2 J Gene'', ''productive'' \<mapsto> Flag True)] c0"
    unfolding iedb_row_def Let_def
    by (auto simp: bind_exc_Inr_iff getitem_Inr_iff simp del: fun_upd_apply)
  from copy_fields_Inr [OF c0]
  have "chains c0 = []" "cell_id c0 = r ''cell_id''"
    "attrs c0 = map_of (map (\<lambda>f. (f, r f)) (rev iedb_cell_fields))"
    by (simp_all add: AirrCell_def)
  with cell l that show thesis
    by (simp add: add_chain_def del: fun_upd_apply)
qed

lemma iedb_row_total:
  assumes "set iedb_row_columns \<subseteq> set cols"
    and "isin_val (r ''Chain 1 Type'') accepted_chains"
    and "isin_val (r ''Chain 2 Type'') accepted_chains"
  shows "\<exists>cell. iedb_row cols r = Inr cell"
proof -
  from assms(1) have f: "set iedb_cell_fields \<subseteq> set cols"
    and c: "''cell_id'' \<in> set cols" "''Chain 1 Type'' \<in> set cols"
      "''Chain 1 CDR3 Curated'' \<in> set cols" "''Curated Chain 1 V Gene'' \<in> set cols"
      "''Curated Chain 1 J Gene'' \<in> set cols" "''Chain 2 Type'' \<in> set cols"
      "''Chain 2 CDR3 Curated'' \<in> set cols" "''Curated Chain 2 V Gene'' \<in> set cols"
      "''Curated Chain 2 D Gene'' \<in> set cols" "''Curated Chain 2 J Gene'' \<in> set cols"
    by (auto simp: iedb_row_columns_def)
  from copy_fields_total [OF f] obtain c0 where
    c0: "copy_fields iedb_cell_fields cols r (AirrCell (r ''cell_id'')) = Inr c0" by blast
  from receptor_dict_accepted [OF assms(2)] receptor_dict_accepted [OF assms(3)]
  obtain l1 l2 where l: "receptor_dict_getitem (r ''Chain 1 Type'') = Inr l1"
    "receptor_dict_getitem (r ''Chain 2 Type'') = Inr l2" by blast
  show ?thesis
    unfolding iedb_row_def Let_def
    by (simp add: getitem_col c c0 l del: fun_upd_apply)
qed

lemma iedb_rows_Inr:
  "iedb_rows cols rs = Inr cells \<Longrightarrow>
   list_all2 (\<lambda>(l, r) cell. iedb_row cols r = Inr cell) rs cells"
  by (induction cols rs arbitrary: cells rule: iedb_rows.induct)
    (auto simp: bind_exc_Inr_iff)

lemma iedb_rows_total:
  "(\<And>l r. (l, r) \<in> set rs \<Longrightarrow> \<exists>cell. iedb_row cols r = Inr cell) \<Longrightarrow>
   \<exists>cells. iedb_rows cols rs = Inr cells"
proof (induction rs)
  case Nil
  then show ?case by simp
next
  case (Cons a rs)
  obtain l r where a: "a = (l, r)" by (cases a)
  from Cons.prems [of l r] obtain cell where c: "iedb_row cols r = Inr cell"
    by (auto simp: a)
  from Cons.IH Cons.prems obtain cells where "iedb_rows cols rs = Inr cells" by auto
  with c show ?case by (simp add: a)
qed

text \<open>The run as a whole.\<close>

lemma iedb_cells_Inr:
  assumes "iedb_cells df = Inr cells" and dist: "distinct (map fst (recs df))"
  obtains d where "iedb_dedup df = Inr d"
    and "list_all2
           (\<lambda>k cell. iedb_row (add_column ''cell_id'' (columns df))
                        ((backfill_row (snd (recs d ! k)))(''cell_id'' := Num (int k))) = Inr cell)
           (filter (\<lambda>k. isin_val (snd (recs d ! k) ''Chain 1 Type'') accepted_chains \<and>
                        isin_val (snd (recs d ! k) ''Chain 2 Type'') accepted_chains)
              [0..<length (recs d)])
           cells"
proof -
  from assms(1) obtain p where p: "iedb_preprocess df = Inr p"
    and rows: "iedb_rows (columns p) (recs p) = Inr cells"
    by (auto simp: iedb_cells_def bind_exc_Inr_iff)
  from iedb_preprocess_Inr [OF p dist] obtain d where dd: "iedb_dedup df = Inr d"
    and p_eq: "p = d\<lparr>columns := add_column ''cell_id'' (columns d),
            recs := map (\<lambda>k. (fst (recs d ! k),
                            (backfill_row (snd (recs d ! k)))(''cell_id'' := Num (int k))))
                      (filter (\<lambda>k. isin_val (snd (recs d ! k) ''Chain 1 Type'') accepted_chains \<and>
                                   isin_val (snd (recs d ! k) ''Chain 2 Type'') accepted_chains)
                         [0..<length (recs d)])\<rparr>"
    by blast
  from iedb_rows_Inr [OF rows] have
    "list_all2
           (\<lambda>k cell. iedb_row (add_column ''cell_id'' (columns df))
                        ((backfill_row (snd (recs d ! k)))(''cell_id'' := Num (int k))) = Inr cell)
           (filter (\<lambda>k. isin_val (snd (recs d ! k) ''Chain 1 Type'') accepted_chains \<and>
                        isin_val (snd (recs d ! k) ''Chain 2 Type'') accepted_chains)
              [0..<length (recs d)])
           cells"
    by (simp add: p_eq list_all2_map1 iedb_dedup_Inr(1) [OF dd] del: fun_upd_apply)
  with dd that show thesis by blast
qed

lemma iedb_cells_total:
  assumes c: "set iedb_columns \<subseteq> set (columns df)" and dist: "distinct (map fst (recs df))"
    and dd: "iedb_dedup df = Inr d"
    and t: "\<forall>c \<in> set curated_columns. has_text (map (\<lambda>(l, r). filled r c) (recs d))"
  shows "\<exists>cells. iedb_cells df = Inr cells"
proof -
  from c have k: "set iedb_key \<subseteq> set (columns df)"
    and cur: "set curated_columns \<subseteq> set (columns df)"
      "set (map (python_replace ''Curated'' ''Calculated'') curated_columns) \<subseteq> set (columns df)"
    and f: "set iedb_cell_fields \<subseteq> set (columns df)"
    by (simp_all add: iedb_columns_def)
  note p = iedb_preprocess_eq [OF dd dist cur t]
  have rc: "set iedb_row_columns \<subseteq> set (add_column ''cell_id'' (columns d))"
    using k cur(1) f
    by (auto simp: iedb_row_columns_def add_column_def iedb_dedup_Inr(1) [OF dd]
        iedb_key_def curated_columns_def)
  have "\<exists>cells. iedb_rows (add_column ''cell_id'' (columns d))
          (map (\<lambda>k. (fst (recs d ! k),
                            (backfill_row (snd (recs d ! k)))(''cell_id'' := Num (int k))))
                      (filter (\<lambda>k. isin_val (snd (recs d ! k) ''Chain 1 Type'') accepted_chains \<and>
                                   isin_val (snd (recs d ! k) ''Chain 2 Type'') accepted_chains)
                         [0..<length (recs d)])) = Inr cells"
    by (rule iedb_rows_total, rule iedb_row_total [OF rc])
      (auto simp: backfill_row_other curated_columns_def)
  then show ?thesis by (simp add: iedb_cells_def p del: fun_upd_apply)
qed

section \<open>Properties: the example table, cell identifiers\<close>

lemma iedb_example_columns: "set iedb_columns \<subseteq> set iedb_example_cols"
  by (auto simp: iedb_example_cols_def)

lemma iedb_dedup_by_labels:
  assumes "iedb_dedup (read_csv cols rows) = Inr d"
  shows "d = \<lparr>columns = cols, recs = map (\<lambda>l. (l, rows ! l)) (map fst (recs d))\<rparr>"
proof -
  note D = iedb_dedup_Inr [OF assms]
  have "map (\<lambda>l. (l, rows ! l)) (map fst (recs d)) = recs d"
    using D(3) by (auto simp: read_csv_mem intro!: map_idI)
  moreover have "columns d = cols" using D(1) by (simp add: read_csv_def)
  ultimately show ?thesis by simp
qed

lemma iedb_example_dedup:
  "iedb_dedup (read_csv iedb_example_cols iedb_example_rows) = Inr iedb_example_deduped"
proof -
  have l: "map_sum id (\<lambda>d. map fst (recs d))
             (iedb_dedup (read_csv iedb_example_cols iedb_example_rows)) = Inr [0, 2, 3, 4]"
    by code_simp
  then obtain d where d: "iedb_dedup (read_csv iedb_example_cols iedb_example_rows) = Inr d"
    and "map fst (recs d) = [0, 2, 3, 4]"
    by (cases "iedb_dedup (read_csv iedb_example_cols iedb_example_rows)") auto
  with iedb_dedup_by_labels [OF d] have "d = iedb_example_deduped"
    by (simp add: iedb_example_deduped_def iedb_example_rows_def)
  with d show ?thesis by simp
qed

lemma iedb_example_accepted:
  "filter (\<lambda>k. isin_val (snd (recs iedb_example_deduped ! k) ''Chain 1 Type'') accepted_chains \<and>
                isin_val (snd (recs iedb_example_deduped ! k) ''Chain 2 Type'') accepted_chains)
     [0..<length (recs iedb_example_deduped)] = [0, 2, 3]"
  by code_simp

lemma list_all2_map_eq:
  "list_all2 (\<lambda>k c. g c = f k) ks cs \<Longrightarrow> map g cs = map f ks"
  by (induction rule: list_all2_induct) auto

lemma iedb_cells_ids:
  assumes "iedb_cells df = Inr cells" and "distinct (map fst (recs df))"
    and "iedb_dedup df = Inr d"
  shows "map cell_id cells =
         map (\<lambda>k. Num (int k))
           (filter (\<lambda>k. isin_val (snd (recs d ! k) ''Chain 1 Type'') accepted_chains \<and>
                        isin_val (snd (recs d ! k) ''Chain 2 Type'') accepted_chains)
              [0..<length (recs d)])"
proof -
  from iedb_cells_Inr [OF assms(1,2)] assms(3)
  have "list_all2
           (\<lambda>k cell. iedb_row (add_column ''cell_id'' (columns df))
                        ((backfill_row (snd (recs d ! k)))(''cell_id'' := Num (int k))) = Inr cell)
           (filter (\<lambda>k. isin_val (snd (recs d ! k) ''Chain 1 Type'') accepted_chains \<and>
                        isin_val (snd (recs d ! k) ''Chain 2 Type'') accepted_chains)
              [0..<length (recs d)])
           cells"
    by auto
  then have "list_all2 (\<lambda>k cell. cell_id cell = Num (int k))
           (filter (\<lambda>k. isin_val (snd (recs d ! k) ''Chain 1 Type'') accepted_chains \<and>
                        isin_val (snd (recs d ! k) ''Chain 2 Type'') accepted_chains)
              [0..<length (recs d)])
           cells"
    by (rule list_all2_mono) (erule iedb_row_Inr, simp)
  then show ?thesis by (rule list_all2_map_eq)
qed

text \<open>Every curated column of the example table holds text, in ASCII.\<close>

lemma iedb_example_text:
  "\<forall>c \<in> set curated_columns.
     has_text (map (\<lambda>(l, r). filled r c) (recs iedb_example_deduped))"
proof -
  have "list_all (\<lambda>c. has_text (map (\<lambda>(l, r). filled r c) (recs iedb_example_deduped)))
          curated_columns"
    by code_simp
  then show ?thesis by (simp add: list_all_iff)
qed


lemma iedb_example_cells:
  obtains cells where "iedb_cells (read_csv iedb_example_cols iedb_example_rows) = Inr cells"
    and "map cell_id cells = [Num 0, Num 2, Num 3]"
proof -
  have "set iedb_columns \<subseteq> set (columns (read_csv iedb_example_cols iedb_example_rows))"
    using iedb_example_columns by (simp add: read_csv_def)
  from iedb_cells_total [OF this read_csv_distinct iedb_example_dedup iedb_example_text]
  obtain cells where c: "iedb_cells (read_csv iedb_example_cols iedb_example_rows) = Inr cells"
    by blast
  from iedb_cells_ids [OF c read_csv_distinct iedb_example_dedup]
  have "map cell_id cells = [Num 0, Num 2, Num 3]"
    unfolding iedb_example_accepted by simp
  with c show thesis by (rule that)
qed

section \<open>Claims about IEDB\<close>



lemma iedb_cells_member:
  assumes "iedb_cells df = Inr cells" and "distinct (map fst (recs df))"
    and "cell \<in> set cells"
  obtains d k where "iedb_dedup df = Inr d" and "k < length (recs d)"
    and "isin_val (snd (recs d ! k) ''Chain 1 Type'') accepted_chains"
    and "isin_val (snd (recs d ! k) ''Chain 2 Type'') accepted_chains"
    and "iedb_row (add_column ''cell_id'' (columns df))
           ((backfill_row (snd (recs d ! k)))(''cell_id'' := Num (int k))) = Inr cell"
proof -
  from iedb_cells_Inr [OF assms(1,2)] obtain d :: dataframe where
    dd: "iedb_dedup df = Inr d"
    and all: "list_all2
           (\<lambda>k cell. iedb_row (add_column ''cell_id'' (columns df))
                        ((backfill_row (snd (recs d ! k)))(''cell_id'' := Num (int k))) = Inr cell)
           (filter (\<lambda>k. isin_val (snd (recs d ! k) ''Chain 1 Type'') accepted_chains \<and>
                        isin_val (snd (recs d ! k) ''Chain 2 Type'') accepted_chains)
              [0..<length (recs d)])
           cells" .
  define ks where "ks = filter (\<lambda>k. isin_val (snd (recs d ! k) ''Chain 1 Type'') accepted_chains \<and>
                        isin_val (snd (recs d ! k) ''Chain 2 Type'') accepted_chains)
              [0..<length (recs d)]"
  from assms(3) obtain j where j: "j < length cells" "cell = cells ! j"
    by (auto simp: in_set_conv_nth)
  from all have len: "length ks = length cells"
    and nth: "iedb_row (add_column ''cell_id'' (columns df))
           ((backfill_row (snd (recs d ! (ks ! j))))(''cell_id'' := Num (int (ks ! j)))) = Inr cell"
    using j unfolding ks_def [symmetric] by (simp_all add: list_all2_conv_all_nth)
  from j len have "ks ! j \<in> set ks" by simp
  then have b: "ks ! j < length (recs d)"
    "isin_val (snd (recs d ! (ks ! j)) ''Chain 1 Type'') accepted_chains"
    "isin_val (snd (recs d ! (ks ! j)) ''Chain 2 Type'') accepted_chains"
    unfolding ks_def by simp_all
  from dd b nth show thesis by (rule that)
qed






text \<open>
  C9. Every cell that the loop body of \<open>iedb\<close> builds, and so every cell of a run,
  has exactly two chains, whatever the values of the row.
\<close>

theorem iedb_two_chains:
  "(\<forall>cell. iedb_row cols r = Inr cell \<longrightarrow> length (chains cell) = 2) \<and>
   (\<forall>cells. iedb_cells (read_csv cols' rows) = Inr cells \<longrightarrow>
      (\<forall>cell \<in> set cells. length (chains cell) = 2))"
proof (intro conjI allI impI ballI)
  fix cell assume "iedb_row cols r = Inr cell"
  then show "length (chains cell) = 2" by (rule iedb_row_Inr) simp
next
  fix cells cell
  assume c: "iedb_cells (read_csv cols' rows) = Inr cells" and m: "cell \<in> set cells"
  obtain d :: dataframe and k where
    "iedb_row (add_column ''cell_id'' (columns (read_csv cols' rows)))
       ((backfill_row (snd (recs d ! k)))(''cell_id'' := Num (int k))) = Inr cell"
    by (rule iedb_cells_member [OF c read_csv_distinct m]) blast
  then show "length (chains cell) = 2" by (rule iedb_row_Inr) simp
qed

theorem iedb_two_chains_witness:
  "\<exists>cells. iedb_cells (read_csv iedb_example_cols iedb_example_rows) = Inr cells \<and>
      length cells = 3 \<and> map (\<lambda>cell. length (chains cell)) cells = [2, 2, 2]"
proof -
  obtain cells where
    c: "iedb_cells (read_csv iedb_example_cols iedb_example_rows) = Inr cells"
    and ids: "map cell_id cells = [Num 0, Num 2, Num 3]"
    by (rule iedb_example_cells)
  from ids have "length (map cell_id cells) = 3" by simp
  then have l: "length cells = 3" by simp
  from iedb_two_chains [of iedb_example_cols iedb_example_row0 iedb_example_cols iedb_example_rows] c
  have "\<forall>cell \<in> set cells. length (chains cell) = 2" by blast
  then have "map (\<lambda>cell. length (chains cell)) cells = replicate (length cells) 2"
    by (induction cells) auto
  with c l show ?thesis by (simp add: numeral_3_eq_3)
qed

lemma iedb_example_loop_columns: "set iedb_row_columns \<subseteq> set iedb_example_loop_cols"
  by code_simp

text \<open>
  C2. A chain whose type label is \<open>light\<close> gets as its locus what the locus resolver
  returns for the keys \<open>v_call\<close>, \<open>d_call\<close>, \<open>j_call\<close>, in that order, and is added to
  the cell whether or not the resolver finds a locus: the cell has its two chains. No
  outcome of the resolver aborts the run: the loop body returns a cell for every row that
  has the columns it reads and accepted chain types, and the loop returns the cells of
  all such rows.
\<close>

theorem iedb_light_locus:
  "(set iedb_row_columns \<subseteq> set cols \<and>
    isin_val (r ''Chain 1 Type'') accepted_chains \<and>
    isin_val (r ''Chain 2 Type'') accepted_chains \<longrightarrow>
      (\<exists>cell. iedb_row cols r = Inr cell)) \<and>
   (set iedb_row_columns \<subseteq> set cols \<and>
    (\<forall>(l, r) \<in> set rs. isin_val (r ''Chain 1 Type'') accepted_chains \<and>
                         isin_val (r ''Chain 2 Type'') accepted_chains) \<longrightarrow>
      (\<exists>cells. iedb_rows cols rs = Inr cells)) \<and>
   (\<forall>cell. iedb_row cols r = Inr cell \<longrightarrow>
      length (chains cell) = 2 \<and>
      (r ''Chain 1 Type'' = Str ''light'' \<longrightarrow>
         (chains cell ! 0) ''locus'' =
           Some (infer_locus_from_gene_names (chains cell ! 0) [''v_call'', ''d_call'', ''j_call''])) \<and>
      (r ''Chain 2 Type'' = Str ''light'' \<longrightarrow>
         (chains cell ! 1) ''locus'' =
           Some (infer_locus_from_gene_names (chains cell ! 1) [''v_call'', ''d_call'', ''j_call''])))"
proof (intro conjI impI allI)
  assume "set iedb_row_columns \<subseteq> set cols \<and>
    isin_val (r ''Chain 1 Type'') accepted_chains \<and>
    isin_val (r ''Chain 2 Type'') accepted_chains"
  then show "\<exists>cell. iedb_row cols r = Inr cell" by (simp add: iedb_row_total)
next
  assume a: "set iedb_row_columns \<subseteq> set cols \<and>
    (\<forall>(l, r) \<in> set rs. isin_val (r ''Chain 1 Type'') accepted_chains \<and>
                         isin_val (r ''Chain 2 Type'') accepted_chains)"
  show "\<exists>cells. iedb_rows cols rs = Inr cells"
  proof (rule iedb_rows_total)
    fix l r assume "(l, r) \<in> set rs"
    with a show "\<exists>cell. iedb_row cols r = Inr cell" by (intro iedb_row_total) auto
  qed
next
  fix cell assume c: "iedb_row cols r = Inr cell"
  show "length (chains cell) = 2" using c by (rule iedb_row_Inr) simp
next
  fix cell assume c: "iedb_row cols r = Inr cell" and t: "r ''Chain 1 Type'' = Str ''light''"
  show "(chains cell ! 0) ''locus'' =
           Some (infer_locus_from_gene_names (chains cell ! 0) [''v_call'', ''d_call'', ''j_call''])"
    using c
  proof (rule iedb_row_Inr)
    fix chain1 chain2 locus1 locus2
    assume "receptor_dict_getitem (r ''Chain 1 Type'') = Inr locus1"
      and ch: "chain1 = empty_chain_dict(''locus'' \<mapsto> locus1,
        ''junction_aa'' \<mapsto> r ''Chain 1 CDR3 Curated'',
        ''junction'' \<mapsto> Null, ''consensus_count'' \<mapsto> Null,
        ''v_call'' \<mapsto> r ''Curated Chain 1 V Gene'', ''d_call'' \<mapsto> Null,
        ''j_call'' \<mapsto> r ''Curated Chain 1 J Gene'', ''productive'' \<mapsto> Flag True)"
      and cs: "chains cell = [call_locus chain1, call_locus chain2]"
    then have "locus1 = Null" by (simp add: t receptor_dict_light)
    with ch have "chain1 ''locus'' = Some Null" by simp
    then show ?thesis by (simp add: cs call_locus_locus del: infer_locus_from_gene_names.simps)
  qed
next
  fix cell assume c: "iedb_row cols r = Inr cell" and t: "r ''Chain 2 Type'' = Str ''light''"
  show "(chains cell ! 1) ''locus'' =
           Some (infer_locus_from_gene_names (chains cell ! 1) [''v_call'', ''d_call'', ''j_call''])"
    using c
  proof (rule iedb_row_Inr)
    fix chain1 chain2 locus1 locus2
    assume "receptor_dict_getitem (r ''Chain 2 Type'') = Inr locus2"
      and ch: "chain2 = empty_chain_dict(''locus'' \<mapsto> locus2,
        ''junction_aa'' \<mapsto> r ''Chain 2 CDR3 Curated'',
        ''junction'' \<mapsto> Null, ''consensus_count'' \<mapsto> Null,
        ''v_call'' \<mapsto> r ''Curated Chain 2 V Gene'', ''d_call'' \<mapsto> r ''Curated Chain 2 D Gene'',
        ''j_call'' \<mapsto> r ''Curated Chain 2 J Gene'', ''productive'' \<mapsto> Flag True)"
      and cs: "chains cell = [call_locus chain1, call_locus chain2]"
    then have "locus2 = Null" by (simp add: t receptor_dict_light)
    with ch have "chain2 ''locus'' = Some Null" by simp
    then show ?thesis by (simp add: cs call_locus_locus del: infer_locus_from_gene_names.simps)
  qed
qed

text \<open>
  Row 4 of the example table has a light chain 2 without gene names: its cell has both
  chains, the second with the locus unresolved. Row 3 has the V gene IGKV1-5.
\<close>

theorem iedb_light_locus_witness:
  "iedb_example_loop_row 3 ''Chain 2 Type'' = Str ''light'' \<and>
   (\<exists>cell. iedb_row iedb_example_loop_cols (iedb_example_loop_row 3) = Inr cell \<and>
      length (chains cell) = 2 \<and>
      (chains cell ! 1) ''locus'' =
        Some (infer_locus_from_gene_names (chains cell ! 1) [''v_call'', ''d_call'', ''j_call'']) \<and>
      map (\<lambda>ch. ch ''locus'') (chains cell) = [Some (Str ''IGH''), Some Null])"
proof -
  have t: "iedb_example_loop_row 3 ''Chain 2 Type'' = Str ''light''" by code_simp
  have a: "isin_val (iedb_example_loop_row 3 ''Chain 1 Type'') accepted_chains"
    "isin_val (iedb_example_loop_row 3 ''Chain 2 Type'') accepted_chains"
    by code_simp+
  note th = iedb_light_locus [of iedb_example_loop_cols "iedb_example_loop_row 3" "[]"]
  note total = th [THEN conjunct1]
  note chains = th [THEN conjunct2, THEN conjunct2, rule_format]
  from total iedb_example_loop_columns a obtain cell where
    c: "iedb_row iedb_example_loop_cols (iedb_example_loop_row 3) = Inr cell" by blast
  have "chain_values (iedb_row iedb_example_loop_cols (iedb_example_loop_row 3)) ''locus'' =
          [Some (Str ''IGH''), Some Null]"
    by code_simp
  with c have v: "map (\<lambda>ch. ch ''locus'') (chains cell) = [Some (Str ''IGH''), Some Null]"
    by (simp add: chain_values_def)
  from chains [OF c] t have "length (chains cell) = 2 \<and>
      (chains cell ! 1) ''locus'' =
        Some (infer_locus_from_gene_names (chains cell ! 1) [''v_call'', ''d_call'', ''j_call''])"
    by simp
  with t c v show ?thesis by simp
qed

lemma copy_fields_cong:
  "(\<And>f. f \<in> set fs \<Longrightarrow> r f = r' f) \<Longrightarrow>
   copy_fields fs cols r cell = copy_fields fs cols r' cell"
  by (induction fs arbitrary: cell) (simp_all add: getitem_def)

lemma iedb_row_cong:
  assumes "\<And>c. c \<in> set iedb_row_columns \<Longrightarrow> r c = r' c"
  shows "iedb_row cols r = iedb_row cols r'"
proof -
  have f: "copy_fields iedb_cell_fields cols r cell = copy_fields iedb_cell_fields cols r' cell"
    for cell
    by (rule copy_fields_cong) (simp add: assms iedb_row_columns_def)
  have g: "getitem cols r c = getitem cols r' c" if "c \<in> set iedb_row_columns" for c
    using assms [OF that] by (simp add: getitem_def)
  show ?thesis
    unfolding iedb_row_def
    by (simp only: f g iedb_row_columns_def list.set_intros append_Cons append_Nil
        set_append Un_iff insertI1 insertI2 list.set insert_iff simp_thms)
qed

text \<open>
  C10. Chain 1 of every IEDB cell has a null \<open>d_call\<close>: the loop body does not read the
  row's Chain 1 D Gene at all, so the cell is the same whatever the curated and
  calculated Chain 1 D Gene are, and the locus resolver on chain 1 finds what it finds
  from \<open>v_call\<close> and \<open>j_call\<close> alone. The \<open>d_call\<close> of chain 2 is the row's curated
  Chain 2 D Gene.
\<close>

theorem iedb_chain1_d_call:
  "(\<forall>cell. iedb_row cols r = Inr cell \<longrightarrow>
      (chains cell ! 0) ''d_call'' = Some Null \<and>
      (chains cell ! 1) ''d_call'' = Some (r ''Curated Chain 2 D Gene'') \<and>
      infer_locus_from_gene_names (chains cell ! 0) [''v_call'', ''d_call'', ''j_call''] =
        infer_locus_from_gene_names (chains cell ! 0) [''v_call'', ''j_call'']) \<and>
   iedb_row cols (r(''Curated Chain 1 D Gene'' := x, ''Calculated Chain 1 D Gene'' := y)) =
     iedb_row cols r \<and>
   (\<forall>cells. iedb_cells (read_csv cols' rows) = Inr cells \<longrightarrow>
      (\<forall>cell \<in> set cells. (chains cell ! 0) ''d_call'' = Some Null))"
proof (intro conjI allI impI ballI)
  fix cell assume c: "iedb_row cols r = Inr cell"
  from c show d1: "(chains cell ! 0) ''d_call'' = Some Null"
    by (rule iedb_row_Inr) simp
  from c show "(chains cell ! 1) ''d_call'' = Some (r ''Curated Chain 2 D Gene'')"
    by (rule iedb_row_Inr) simp
  from d1 show "infer_locus_from_gene_names (chains cell ! 0) [''v_call'', ''d_call'', ''j_call''] =
        infer_locus_from_gene_names (chains cell ! 0) [''v_call'', ''j_call'']"
    by (simp split: option.splits val.splits)
next
  show "iedb_row cols (r(''Curated Chain 1 D Gene'' := x, ''Calculated Chain 1 D Gene'' := y)) =
     iedb_row cols r"
    by (rule iedb_row_cong) (auto simp: iedb_row_columns_def iedb_cell_fields_def)
next
  fix cells cell
  assume c: "iedb_cells (read_csv cols' rows) = Inr cells" and m: "cell \<in> set cells"
  obtain d :: dataframe and k where
    "iedb_row (add_column ''cell_id'' (columns (read_csv cols' rows)))
       ((backfill_row (snd (recs d ! k)))(''cell_id'' := Num (int k))) = Inr cell"
    by (rule iedb_cells_member [OF c read_csv_distinct m]) blast
  then show "(chains cell ! 0) ''d_call'' = Some Null" by (rule iedb_row_Inr) simp
qed

text \<open>
  Row 3 of the example table has the curated Chain 1 D Gene IGHD3-10; its cell, the
  second of the run, has no \<open>d_call\<close> on chain 1.
\<close>

theorem iedb_chain1_d_call_witness:
  "iedb_example_loop_row 2 ''Curated Chain 1 D Gene'' = Str ''IGHD3-10'' \<and>
   (\<exists>cell. iedb_row iedb_example_loop_cols (iedb_example_loop_row 2) = Inr cell \<and>
      (chains cell ! 0) ''d_call'' = Some Null \<and>
      (chains cell ! 1) ''d_call'' = Some Null) \<and>
   (\<exists>cells. iedb_cells (read_csv iedb_example_cols iedb_example_rows) = Inr cells \<and>
      map (\<lambda>cell. (chains cell ! 0) ''d_call'') cells = [Some Null, Some Null, Some Null])"
proof -
  note th = iedb_chain1_d_call [of iedb_example_loop_cols "iedb_example_loop_row 2"
      Null Null iedb_example_cols iedb_example_rows]
  note row = th [THEN conjunct1, rule_format]
  note run = th [THEN conjunct2, THEN conjunct2, rule_format]
  have d: "iedb_example_loop_row 2 ''Curated Chain 1 D Gene'' = Str ''IGHD3-10''"
    and d2: "iedb_example_loop_row 2 ''Curated Chain 2 D Gene'' = Null"
    by code_simp+
  have a: "isin_val (iedb_example_loop_row 2 ''Chain 1 Type'') accepted_chains"
    "isin_val (iedb_example_loop_row 2 ''Chain 2 Type'') accepted_chains"
    by code_simp+
  from iedb_row_total [OF iedb_example_loop_columns a] obtain cell where
    c: "iedb_row iedb_example_loop_cols (iedb_example_loop_row 2) = Inr cell" by blast
  from row [OF c] d2 have 1: "(chains cell ! 0) ''d_call'' = Some Null \<and>
      (chains cell ! 1) ''d_call'' = Some Null" by simp
  obtain cells where
    cs: "iedb_cells (read_csv iedb_example_cols iedb_example_rows) = Inr cells"
    and ids: "map cell_id cells = [Num 0, Num 2, Num 3]"
    by (rule iedb_example_cells)
  from ids have "length (map cell_id cells) = 3" by simp
  then have l: "length cells = 3" by simp
  from run [OF cs] have "map (\<lambda>cell. (chains cell ! 0) ''d_call'') cells =
      replicate (length cells) (Some Null)"
    by (induction cells) auto
  with l have 2: "map (\<lambda>cell. (chains cell ! 0) ''d_call'') cells =
      [Some Null, Some Null, Some Null]"
    by (simp add: numeral_3_eq_3)
  from c 1 have A: "\<exists>cell. iedb_row iedb_example_loop_cols (iedb_example_loop_row 2) = Inr cell \<and>
      (chains cell ! 0) ''d_call'' = Some Null \<and>
      (chains cell ! 1) ''d_call'' = Some Null"
    by (intro exI [of _ cell]) simp
  from cs 2 have B: "\<exists>cells. iedb_cells (read_csv iedb_example_cols iedb_example_rows) = Inr cells \<and>
      map (\<lambda>cell. (chains cell ! 0) ''d_call'') cells = [Some Null, Some Null, Some Null]"
    by (intro exI [of _ cells]) simp
  from d A B show ?thesis by (intro conjI)
qed



section \<open>Claims about the cache\<close>

lemma fetch_in_download:
  "Fetch \<in> set (fst (vdjdb_download w p))" "Fetch \<in> set (fst (iedb_download w p))"
  by (auto simp: vdjdb_download_def iedb_download_def after_def split: sum.splits prod.splits)

lemma vdjdb_download_events:
  assumes "fetch w = Inr (cols, rows)"
    and "vdjdb_rows cols (recs (read_csv cols rows)) = Inr cells"
  shows "fst (vdjdb_download w p) = [Fetch, WriteCache p]"
  using assms
  by (simp add: vdjdb_download_def store_cache_def after_def split: option.splits)

lemma vdjdb_example_rows:
  "\<exists>cells. vdjdb_rows vdjdb_example_cols (recs (read_csv vdjdb_example_cols [vdjdb_example_row]))
      = Inr cells"
proof -
  have "set vdjdb_columns \<subseteq> set vdjdb_example_cols"
    by (auto simp: vdjdb_example_cols_def)
  from vdjdb_row_total [OF this] obtain cell where
    "vdjdb_row vdjdb_example_cols 0 vdjdb_example_row = Inr cell" by blast
  then show ?thesis by (simp add: read_csv_def)
qed

text \<open>
  C6 (amended). With \<open>cached\<close> true, a cache read that raises \<open>OSError\<close> (a missing
  file is one) is a cache miss: the call goes on as the call with \<open>cached\<close> false does,
  fetching the table, and returns what that call returns. A cache read that raises any
  other exception is not caught: the call ends with that exception, after the cache read
  alone.
\<close>

theorem cache_miss_on_OSError:
  "(read_h5ad w cache_path = Inl OSError \<longrightarrow>
      vdjdb w True cache_path = after (ReadCache cache_path) (vdjdb w False cache_path) \<and>
      iedb w True cache_path = after (ReadCache cache_path) (iedb w False cache_path) \<and>
      Fetch \<in> set (fst (vdjdb w True cache_path)) \<and>
      Fetch \<in> set (fst (iedb w True cache_path))) \<and>
   (\<forall>e. read_h5ad w cache_path = Inl e \<and> e \<noteq> OSError \<longrightarrow>
      vdjdb w True cache_path = ([ReadCache cache_path], Inl e) \<and>
      iedb w True cache_path = ([ReadCache cache_path], Inl e))"
  using fetch_in_download [of w cache_path]
  by (simp add: vdjdb_def iedb_def after_def)

theorem cache_miss_on_OSError_witness:
  "read_h5ad (example_world (Inl OSError)) ''data/vdjdb.h5ad'' = Inl OSError \<and>
   vdjdb (example_world (Inl OSError)) True ''data/vdjdb.h5ad'' =
     after (ReadCache ''data/vdjdb.h5ad'')
       (vdjdb (example_world (Inl OSError)) False ''data/vdjdb.h5ad'') \<and>
   fst (vdjdb (example_world (Inl OSError)) True ''data/vdjdb.h5ad'') =
     [ReadCache ''data/vdjdb.h5ad'', Fetch, WriteCache ''data/vdjdb.h5ad''] \<and>
   read_h5ad (example_world (Inl (KeyError (Str ''X'')))) ''data/vdjdb.h5ad'' =
     Inl (KeyError (Str ''X'')) \<and>
   vdjdb (example_world (Inl (KeyError (Str ''X'')))) True ''data/vdjdb.h5ad'' =
     ([ReadCache ''data/vdjdb.h5ad''], Inl (KeyError (Str ''X'')))"
proof -
  have r: "read_h5ad (example_world (Inl OSError)) ''data/vdjdb.h5ad'' = Inl OSError"
    by (simp add: example_world_def)
  have r': "read_h5ad (example_world (Inl (KeyError (Str ''X'')))) ''data/vdjdb.h5ad'' =
     Inl (KeyError (Str ''X''))"
    by (simp add: example_world_def)
  note miss = cache_miss_on_OSError [of "example_world (Inl OSError)" "''data/vdjdb.h5ad''",
      THEN conjunct1, rule_format, OF r]
  note other = cache_miss_on_OSError [of "example_world (Inl (KeyError (Str ''X'')))"
      "''data/vdjdb.h5ad''", THEN conjunct2, rule_format, of "KeyError (Str ''X'')"]
  from vdjdb_example_rows obtain cells where
    "vdjdb_rows vdjdb_example_cols (recs (read_csv vdjdb_example_cols [vdjdb_example_row]))
      = Inr cells" by blast
  then have "fst (vdjdb_download (example_world (Inl OSError)) ''data/vdjdb.h5ad'') =
          [Fetch, WriteCache ''data/vdjdb.h5ad'']"
    by (intro vdjdb_download_events) (simp_all add: example_world_def)
  then have "fst (vdjdb (example_world (Inl OSError)) False ''data/vdjdb.h5ad'') =
          [Fetch, WriteCache ''data/vdjdb.h5ad'']"
    by (simp add: vdjdb_def)
  with miss have 1: "vdjdb (example_world (Inl OSError)) True ''data/vdjdb.h5ad'' =
     after (ReadCache ''data/vdjdb.h5ad'')
       (vdjdb (example_world (Inl OSError)) False ''data/vdjdb.h5ad'')"
    and 2: "fst (vdjdb (example_world (Inl OSError)) True ''data/vdjdb.h5ad'') =
     [ReadCache ''data/vdjdb.h5ad'', Fetch, WriteCache ''data/vdjdb.h5ad'']"
    by (simp_all add: after_def)
  from other r' have 3: "vdjdb (example_world (Inl (KeyError (Str ''X'')))) True ''data/vdjdb.h5ad'' =
     ([ReadCache ''data/vdjdb.h5ad''], Inl (KeyError (Str ''X'')))"
    by simp
  from r 1 2 r' 3 show ?thesis by (intro conjI)
qed

text \<open>
  A cache read that fails with another exception is not caught: the exception reaches
  the caller, and nothing is fetched.
\<close>

theorem cache_read_error_surfaces:
  "vdjdb (example_world (Inl (Other ''ValueError''))) True ''data/vdjdb.h5ad'' =
     ([ReadCache ''data/vdjdb.h5ad''], Inl (Other ''ValueError'')) \<and>
   iedb (example_world (Inl (Other ''ValueError''))) True ''data/iedb.h5ad'' =
     ([ReadCache ''data/iedb.h5ad''], Inl (Other ''ValueError''))"
  by (simp add: vdjdb_def iedb_def example_world_def)

text \<open>
  C8. With \<open>cached\<close> true and a cache read that succeeds, the call returns what was read,
  and the only collaborator it invokes is the cache read: nothing is fetched.
\<close>

theorem cache_hit:
  assumes "read_h5ad w cache_path = Inr a"
  shows "vdjdb w True cache_path = ([ReadCache cache_path], Inr a) \<and>
         iedb w True cache_path = ([ReadCache cache_path], Inr a) \<and>
         Fetch \<notin> set (fst (vdjdb w True cache_path)) \<and>
         Fetch \<notin> set (fst (iedb w True cache_path))"
  using assms by (simp add: vdjdb_def iedb_def)

theorem cache_hit_witness:
  "read_h5ad (example_world (Inr example_adata)) ''data/vdjdb.h5ad'' = Inr example_adata \<and>
   vdjdb (example_world (Inr example_adata)) True ''data/vdjdb.h5ad'' =
     ([ReadCache ''data/vdjdb.h5ad''], Inr example_adata) \<and>
   Fetch \<notin> set (fst (vdjdb (example_world (Inr example_adata)) True ''data/vdjdb.h5ad''))"
proof -
  have r: "read_h5ad (example_world (Inr example_adata)) ''data/vdjdb.h5ad'' = Inr example_adata"
    by (simp add: example_world_def)
  from cache_hit [OF r] r show ?thesis by simp
qed

section \<open>Claims about the VDJDB metadata\<close>

lemma dom_map_of_fields: "dom (map_of (map (\<lambda>f. (f, r f)) fs)) = set fs"
  by (simp add: dom_map_of_conv_image_fst image_image)

lemma map_of_fields: "f \<in> set fs \<Longrightarrow> map_of (map (\<lambda>f. (f, (r f :: val))) fs) f = Some (r f)"
  by (induction fs) auto

text \<open>
  C7 (amended). The allow-list has 25 different fields. A VDJDB row that has the
  columns \<open>vdjdb\<close> reads is normalized to a cell, and whenever a row is normalized to a
  cell, the metadata keys of the cell are exactly the fields of the allow-list, each
  with the value the row has in that column, a null value included; no other column
  of the row becomes a key.
\<close>

theorem vdjdb_row_metadata:
  "length INCLUDE_CELL_METADATA_FIELDS = 25 \<and> distinct INCLUDE_CELL_METADATA_FIELDS \<and>
   (set vdjdb_columns \<subseteq> set cols \<longrightarrow> (\<exists>cell. vdjdb_row cols idx r = Inr cell)) \<and>
   (\<forall>cell. vdjdb_row cols idx r = Inr cell \<longrightarrow>
      dom (attrs cell) = set INCLUDE_CELL_METADATA_FIELDS \<and>
      (\<forall>f \<in> set INCLUDE_CELL_METADATA_FIELDS. attrs cell f = Some (r f)))"
proof (intro conjI allI impI ballI)
  show "length INCLUDE_CELL_METADATA_FIELDS = 25" by (rule length_INCLUDE)
  show "distinct INCLUDE_CELL_METADATA_FIELDS" by (rule distinct_INCLUDE)
next
  assume "set vdjdb_columns \<subseteq> set cols"
  then show "\<exists>cell. vdjdb_row cols idx r = Inr cell" by (rule vdjdb_row_total)
next
  fix cell assume c: "vdjdb_row cols idx r = Inr cell"
  note a = vdjdb_row_Inr(3) [OF c]
  show "dom (attrs cell) = set INCLUDE_CELL_METADATA_FIELDS"
    unfolding a dom_map_of_fields by simp
  fix f assume "f \<in> set INCLUDE_CELL_METADATA_FIELDS"
  then have "f \<in> set (rev INCLUDE_CELL_METADATA_FIELDS)" by simp
  then show "attrs cell f = Some (r f)"
    unfolding a by (rule map_of_fields)
qed

text \<open>
  The example row has a species and a score and is null in the other allow-list
  columns; its column \<open>web.method\<close> is not in the allow-list.
\<close>

theorem vdjdb_row_metadata_witness:
  "set vdjdb_columns \<subseteq> set vdjdb_example_cols \<and>
   (\<exists>cell. vdjdb_row vdjdb_example_cols 0 vdjdb_example_row = Inr cell \<and>
      dom (attrs cell) = set INCLUDE_CELL_METADATA_FIELDS \<and>
      attrs cell ''species'' = Some (Str ''HomoSapiens'') \<and>
      attrs cell ''mhc.a'' = Some Null \<and>
      attrs cell ''web.method'' = None)"
proof -
  have cols: "set vdjdb_columns \<subseteq> set vdjdb_example_cols"
    by (auto simp: vdjdb_example_cols_def)
  note th = vdjdb_row_metadata [of vdjdb_example_cols 0 vdjdb_example_row]
  note total = th [THEN conjunct2, THEN conjunct2, THEN conjunct1]
  note meta = th [THEN conjunct2, THEN conjunct2, THEN conjunct2, rule_format]
  from total cols obtain cell where
    c: "vdjdb_row vdjdb_example_cols 0 vdjdb_example_row = Inr cell" by blast
  have in1: "''species'' \<in> set INCLUDE_CELL_METADATA_FIELDS"
    and in2: "''mhc.a'' \<in> set INCLUDE_CELL_METADATA_FIELDS"
    and out: "''web.method'' \<notin> set INCLUDE_CELL_METADATA_FIELDS"
    by (simp_all add: INCLUDE_CELL_METADATA_FIELDS_def)
  from meta [OF c] have d: "dom (attrs cell) = set INCLUDE_CELL_METADATA_FIELDS"
    and v: "\<And>f. f \<in> set INCLUDE_CELL_METADATA_FIELDS \<Longrightarrow> attrs cell f = Some (vdjdb_example_row f)"
    by simp_all
  from v [OF in1] have 1: "attrs cell ''species'' = Some (Str ''HomoSapiens'')"
    by (simp add: vdjdb_example_row_def mk_row_def)
  from v [OF in2] have 2: "attrs cell ''mhc.a'' = Some Null"
    by (simp add: vdjdb_example_row_def mk_row_def)
  from d out have "''web.method'' \<notin> dom (attrs cell)" by simp
  then have 3: "attrs cell ''web.method'' = None" by (simp add: domIff)
  from c d 1 2 3 have "\<exists>cell. vdjdb_row vdjdb_example_cols 0 vdjdb_example_row = Inr cell \<and>
      dom (attrs cell) = set INCLUDE_CELL_METADATA_FIELDS \<and>
      attrs cell ''species'' = Some (Str ''HomoSapiens'') \<and>
      attrs cell ''mhc.a'' = Some Null \<and>
      attrs cell ''web.method'' = None"
    by (intro exI [of _ cell]) simp
  with cols show ?thesis by (intro conjI)
qed

text \<open>
  The allow-list of the code has 25 different fields, not 24, and the cell of the
  example row has a value under each of them.
\<close>

theorem vdjdb_metadata_25_fields:
  "length (remdups INCLUDE_CELL_METADATA_FIELDS) = 25 \<and>
   length (attr_values (vdjdb_row vdjdb_example_cols 0 vdjdb_example_row)
             (remdups INCLUDE_CELL_METADATA_FIELDS)) = 25 \<and>
   None \<notin> set (attr_values (vdjdb_row vdjdb_example_cols 0 vdjdb_example_row)
                 INCLUDE_CELL_METADATA_FIELDS)"
proof -
  have cols: "set vdjdb_columns \<subseteq> set vdjdb_example_cols"
    by (auto simp: vdjdb_example_cols_def)
  from vdjdb_row_total [OF cols] obtain cell where
    c: "vdjdb_row vdjdb_example_cols 0 vdjdb_example_row = Inr cell" by blast
  have r: "remdups INCLUDE_CELL_METADATA_FIELDS = INCLUDE_CELL_METADATA_FIELDS"
    using distinct_INCLUDE by simp
  have "attrs cell f \<noteq> None" if "f \<in> set INCLUDE_CELL_METADATA_FIELDS" for f
    using that unfolding vdjdb_row_Inr(3) [OF c]
    by (simp add: map_of_eq_None_iff image_image)
  then have "None \<notin> set (map (attrs cell) INCLUDE_CELL_METADATA_FIELDS)" by force
  then show ?thesis by (simp add: r length_INCLUDE attr_values_def c)
qed

end
